theory Spec2Isabelle
  imports Complex_Main "HOL-Library.Log_Nat" "HOL-Library.Word"
begin

section \<open>Python numbers used by \<open>paste_image_auto\<close>\<close>

text \<open>
  The scale of \<open>image_fit_paste.py\<close> is a Python \<open>float\<close> (an IEEE 754 binary64 number):
  \<open>region_w / cw\<close> is the true division of two unbounded integers, \<open>cw * scale\<close> multiplies
  an integer by a float, and \<open>round\<close> takes the float back to an integer. A finite float is
  modelled by the rational number it denotes; every operation computes the exact result and
  rounds it to the nearest binary64 number, ties to the even significand.
\<close>

datatype error =
    TypeMismatch          \<comment> \<open>\<open>raise TypeError\<close>, line 43\<close>
  | InvalidGeometry       \<comment> \<open>\<open>raise ValueError\<close>, line 67\<close>
  | InvalidContentSize    \<comment> \<open>\<open>raise ValueError\<close>, line 79\<close>
  | DecodeFailure         \<comment> \<open>raised by \<open>Image.open\<close>\<close>
  | EncodeFailure         \<comment> \<open>raised by \<open>Image.save\<close>\<close>
  | OverflowError         \<comment> \<open>raised by float arithmetic or by an argument outside the C \<open>int\<close> range\<close>
  | ZeroDivisionError     \<comment> \<open>raised by \<open>/\<close>\<close>
  | LibraryValueError     \<comment> \<open>\<open>ValueError\<close> raised inside \<open>Image.resize\<close> or \<open>Image.paste\<close>\<close>

text \<open>Rounding a rational to the nearest integer, ties to the even one: Python's \<open>round(x)\<close>.\<close>

definition round_half_even :: "rat \<Rightarrow> int" where
  "round_half_even x =
     (let f = \<lfloor>x\<rfloor>; r = x - of_int f
      in if r < 1 / 2 then f else if 1 / 2 < r then f + 1 else if even f then f else f + 1)"

text \<open>The binary exponent of a positive rational: \<open>2 ^ ilog2 q \<le> q < 2 ^ (ilog2 q + 1)\<close>.\<close>

definition ilog2 :: "rat \<Rightarrow> int" where
  "ilog2 q =
     (let (a, b) = quotient_of q; d = bitlen a - bitlen b
      in if (if 0 \<le> d then b * 2 ^ nat d \<le> a else b \<le> a * 2 ^ nat (- d)) then d else d - 1)"

text \<open>
  Round to nearest binary64, ties to even: 53 significant bits, gradual underflow below
  \<open>2 ^ (-1022)\<close>, and \<open>None\<close> when the rounded magnitude reaches \<open>2 ^ 1024\<close> (overflow).
\<close>

definition fl_round :: "rat \<Rightarrow> rat option" where
  "fl_round q =
     (if q = 0 then Some 0
      else let t = max (ilog2 \<bar>q\<bar>) (- 1022) - 52;
               v = of_int (round_half_even (q / 2 powi t)) * 2 powi t
           in if \<bar>v\<bar> < 2 powi 1024 then Some v else None)"

text \<open>A float value: finite, or the infinity an overflowing multiplication produces.\<close>

datatype pyfloat = Finite rat | Infinity

text \<open>\<open>a / b\<close> on two \<open>int\<close>s: correctly rounded, \<open>OverflowError\<close> when too large for a float.\<close>

definition py_truediv :: "int \<Rightarrow> int \<Rightarrow> error + rat" where
  "py_truediv a b =
     (if b = 0 then Inl ZeroDivisionError
      else case fl_round (of_int a / of_int b) of
             None \<Rightarrow> Inl OverflowError
           | Some v \<Rightarrow> Inr v)"

text \<open>\<open>n * x\<close> with \<open>n\<close> an \<open>int\<close> and \<open>x\<close> a float: \<open>n\<close> is converted first
  (\<open>OverflowError\<close> when it is too large), then the two floats are multiplied.\<close>

definition py_int_times_float :: "int \<Rightarrow> rat \<Rightarrow> error + pyfloat" where
  "py_int_times_float n x =
     (case fl_round (of_int n) of
        None \<Rightarrow> Inl OverflowError
      | Some f \<Rightarrow> (case fl_round (f * x) of
                    None \<Rightarrow> Inr Infinity
                  | Some v \<Rightarrow> Inr (Finite v)))"

text \<open>\<open>int(round(x))\<close>: \<open>round\<close> of an infinity raises \<open>OverflowError\<close>.\<close>

definition py_round :: "pyfloat \<Rightarrow> error + int" where
  "py_round x = (case x of Finite v \<Rightarrow> Inr (round_half_even v) | Infinity \<Rightarrow> Inl OverflowError)"

section \<open>Images, the object store and the raster library\<close>

type_synonym pixel = "8 word \<times> 8 word \<times> 8 word \<times> 8 word"

text \<open>An image of the RGB / RGBA family: its size (two C \<open>int\<close>s in the raster library),
  whether \<open>"A"\<close> is among its bands, and its pixels (red, green, blue, alpha; one byte
  each).\<close>

record image =
  xsize :: "32 word"
  ysize :: "32 word"
  alpha_band :: bool
  px_at :: "int \<Rightarrow> int \<Rightarrow> pixel"

text \<open>\<open>im.size\<close> as Python integers.\<close>

definition img_w :: "image \<Rightarrow> int" where
  "img_w im = sint (xsize im)"

definition img_h :: "image \<Rightarrow> int" where
  "img_h im = sint (ysize im)"

text \<open>Calls into the raster library, the file system and the console, in the order made.\<close>

datatype libcall =
    CallCopy nat
  | CallIsFile string
  | CallOpen string
  | CallResize nat "int \<times> int"
  | CallPaste nat nat "int \<times> int" "nat option"
  | CallPrint string
  | CallSave nat

text \<open>Python objects live in a store; \<open>fresh\<close> is the next unused reference. The store is
  unbounded: no allocation fails.\<close>

record world =
  heap :: "nat \<Rightarrow> image"
  fresh :: nat
  calls :: "libcall list"

text \<open>What the operation reads from outside: the files, the resampling filter, the encoder.\<close>

record env =
  isfile :: "string \<Rightarrow> bool"
  decode :: "string \<Rightarrow> image option"
  lanczos :: "image \<Rightarrow> int \<Rightarrow> int \<Rightarrow> int \<Rightarrow> int \<Rightarrow> pixel"
  encode_png :: "image \<Rightarrow> nat list option"

definition log_call :: "libcall \<Rightarrow> world \<Rightarrow> world" where
  "log_call c w = w\<lparr>calls := calls w @ [c]\<rparr>"

definition alloc :: "image \<Rightarrow> world \<Rightarrow> nat \<times> world" where
  "alloc im w = (fresh w, w\<lparr>heap := (heap w)(fresh w := im), fresh := Suc (fresh w)\<rparr>)"

text \<open>A C \<open>int\<close> argument of the raster library.\<close>

definition in_cint :: "int \<Rightarrow> bool" where
  "in_cint n = (- 2147483648 \<le> n \<and> n \<le> 2147483647)"

text \<open>\<open>im.copy()\<close>: a new object with the same contents.\<close>

definition image_copy :: "nat \<Rightarrow> world \<Rightarrow> (error + nat) \<times> world" where
  "image_copy r w = (case alloc (heap w r) (log_call (CallCopy r) w) of (r', w') \<Rightarrow> (Inr r', w'))"

definition to_rgba :: "image \<Rightarrow> image" where
  "to_rgba im =
     im\<lparr>alpha_band := True,
        px_at := (if alpha_band im then px_at im
                  else (\<lambda>x y. case px_at im x y of (r, g, b, _) \<Rightarrow> (r, g, b, 255)))\<rparr>"

text \<open>\<open>Image.open(path).convert("RGBA")\<close>.\<close>

definition image_open_rgba :: "env \<Rightarrow> string \<Rightarrow> world \<Rightarrow> (error + nat) \<times> world" where
  "image_open_rgba E p w =
     (let w1 = log_call (CallOpen p) w
      in case decode E p of
           None \<Rightarrow> (Inl DecodeFailure, w1)
         | Some im \<Rightarrow> (case alloc (to_rgba im) w1 of (r, w2) \<Rightarrow> (Inr r, w2)))"

text \<open>\<open>im.resize((w, h), Image.LANCZOS)\<close>: a new object of the requested size and of the
  mode of \<open>im\<close>; the size is passed as two C \<open>int\<close>s and must be positive.\<close>

definition image_resize :: "env \<Rightarrow> nat \<Rightarrow> int \<times> int \<Rightarrow> world \<Rightarrow> (error + nat) \<times> world" where
  "image_resize E r sz w =
     (let w1 = log_call (CallResize r sz) w; nw = fst sz; nh = snd sz
      in if \<not> (in_cint nw \<and> in_cint nh) then (Inl OverflowError, w1)
         else if nw < 1 \<or> nh < 1 then (Inl LibraryValueError, w1)
         else case alloc \<lparr>xsize = word_of_int nw, ysize = word_of_int nh,
                          alpha_band = alpha_band (heap w r),
                          px_at = lanczos E (heap w r) nw nh\<rparr> w1 of
                (r', w2) \<Rightarrow> (Inr r', w2))"

text \<open>The blend of one channel under a mask value \<open>m\<close> (0 keeps \<open>d\<close>, 255 takes \<open>s\<close>).\<close>

definition blend8 :: "8 word \<Rightarrow> 8 word \<Rightarrow> 8 word \<Rightarrow> 8 word" where
  "blend8 m d s =
     (let t = unat m * unat s + (255 - unat m) * unat d + 128 in of_nat ((t div 256 + t) div 256))"

definition blend_pixel :: "8 word \<Rightarrow> pixel \<Rightarrow> pixel \<Rightarrow> pixel" where
  "blend_pixel m d s =
     (case d of (dr, dg, db, da) \<Rightarrow>
        (case s of (sr, sg, sb, sa) \<Rightarrow>
           (blend8 m dr sr, blend8 m dg sg, blend8 m db sb, blend8 m da sa)))"

definition alpha_of :: "pixel \<Rightarrow> 8 word" where
  "alpha_of p = snd (snd (snd p))"

text \<open>The source pixel in the mode of the destination.\<close>

definition as_mode_of :: "image \<Rightarrow> image \<Rightarrow> pixel \<Rightarrow> pixel" where
  "as_mode_of D S p =
     (case p of (r, g, b, a) \<Rightarrow> (r, g, b, if alpha_band D \<and> alpha_band S then a else 255))"

definition in_box :: "int \<times> int \<Rightarrow> image \<Rightarrow> int \<Rightarrow> int \<Rightarrow> bool" where
  "in_box xy S x y =
     (fst xy \<le> x \<and> x < fst xy + img_w S \<and> snd xy \<le> y \<and> y < snd xy + img_h S)"

definition on_canvas :: "image \<Rightarrow> int \<Rightarrow> int \<Rightarrow> bool" where
  "on_canvas D x y = (0 \<le> x \<and> x < img_w D \<and> 0 \<le> y \<and> y < img_h D)"

text \<open>
  \<open>dst.paste(src, (px, py))\<close> and \<open>dst.paste(src, (px, py), mask)\<close>: the only operation that
  changes an existing object. The box is passed as four C \<open>int\<close>s and clipped to the
  canvas. Without a mask every pixel of the box is overwritten; with a mask (which must
  have an alpha band and the size of \<open>src\<close>) each pixel is blended by the mask's alpha.
\<close>

definition image_paste ::
  "nat \<Rightarrow> nat \<Rightarrow> int \<times> int \<Rightarrow> nat option \<Rightarrow> world \<Rightarrow> (error + unit) \<times> world" where
  "image_paste d s xy msk w =
     (let w1 = log_call (CallPaste d s xy msk) w; D = heap w d; S = heap w s
      in if \<not> (in_cint (fst xy) \<and> in_cint (snd xy) \<and>
                in_cint (fst xy + img_w S) \<and> in_cint (snd xy + img_h S))
         then (Inl OverflowError, w1)
         else case msk of
           None \<Rightarrow>
             (Inr (),
              w1\<lparr>heap := (heap w)(d := D\<lparr>px_at := (\<lambda>x y.
                  if in_box xy S x y \<and> on_canvas D x y
                  then as_mode_of D S (px_at S (x - fst xy) (y - snd xy))
                  else px_at D x y)\<rparr>)\<rparr>)
         | Some k \<Rightarrow>
             (let M = heap w k
              in if \<not> alpha_band M \<or> img_w M \<noteq> img_w S \<or> img_h M \<noteq> img_h S
                 then (Inl LibraryValueError, w1)
                 else (Inr (),
                   w1\<lparr>heap := (heap w)(d := D\<lparr>px_at := (\<lambda>x y.
                       if in_box xy S x y \<and> on_canvas D x y
                       then blend_pixel (alpha_of (px_at M (x - fst xy) (y - snd xy)))
                              (px_at D x y)
                              (as_mode_of D S (px_at S (x - fst xy) (y - snd xy)))
                       else px_at D x y)\<rparr>)\<rparr>)))"

text \<open>\<open>img.save(buf, format="PNG"); buf.getvalue()\<close>.\<close>

definition image_save_png :: "env \<Rightarrow> nat \<Rightarrow> world \<Rightarrow> (error + nat list) \<times> world" where
  "image_save_png E r w =
     (let w1 = log_call (CallSave r) w
      in case encode_png E (heap w r) of
           None \<Rightarrow> (Inl EncodeFailure, w1)
         | Some bytes \<Rightarrow> (Inr bytes, w1))"

section \<open>The operation \<open>paste_image_auto\<close>\<close>

datatype align = ALeft | ACenter | ARight
datatype valign = VTop | VMiddle | VBottom

datatype source = SrcImage nat | SrcPath string
datatype pyobj = ObjImage nat | ObjStr string | ObjNone
datatype overlay = OvNone | OvImage nat | OvPath string

record args =
  image_source :: source
  top_left :: "int \<times> int"
  bottom_right :: "int \<times> int"
  content_image :: pyobj
  align :: align
  valign :: valign
  padding :: int
  allow_upscale :: bool
  keep_alpha :: bool
  image_overlay :: overlay

text \<open>Sequencing of steps that may raise: the first error ends the call.\<close>

definition then_do ::
  "(error + 'a) \<times> world \<Rightarrow> ('a \<Rightarrow> world \<Rightarrow> (error + 'b) \<times> world) \<Rightarrow> (error + 'b) \<times> world" where
  "then_do m f = (case m of (Inl e, w) \<Rightarrow> (Inl e, w) | (Inr x, w) \<Rightarrow> f x w)"

definition raise_or :: "error + 'a \<Rightarrow> world \<Rightarrow> (error + 'a) \<times> world" where
  "raise_or r w = (r, w)"

text \<open>Step 4 (lines 41-43): \<open>content_image\<close> must be an image object.\<close>

definition check_content :: "pyobj \<Rightarrow> error + nat" where
  "check_content c = (case c of ObjImage r \<Rightarrow> Inr r | _ \<Rightarrow> Inl TypeMismatch)"

text \<open>Step 5 (lines 46-52): the base image is copied, or opened from its path.\<close>

definition prepare_base :: "env \<Rightarrow> source \<Rightarrow> world \<Rightarrow> (error + nat) \<times> world" where
  "prepare_base E src w =
     (case src of SrcImage r \<Rightarrow> image_copy r w | SrcPath p \<Rightarrow> image_open_rgba E p w)"

text \<open>Step 6 (lines 55-60): the overlay is copied, or opened when its path is a file.
  \<open>None\<close> stands for \<open>img_overlay\<close> being \<open>None\<close> or never assigned.\<close>

definition prepare_overlay :: "env \<Rightarrow> overlay \<Rightarrow> world \<Rightarrow> (error + nat option) \<times> world" where
  "prepare_overlay E ov w =
     (case ov of
        OvNone \<Rightarrow> (Inr None, w)
      | OvImage r \<Rightarrow> then_do (image_copy r w) (\<lambda>r' w'. (Inr (Some r'), w'))
      | OvPath p \<Rightarrow>
          (let w1 = log_call (CallIsFile p) w
           in if isfile E p
              then then_do (image_open_rgba E p w1) (\<lambda>r' w'. (Inr (Some r'), w'))
              else (Inr None, w1)))"

text \<open>Step 7 (lines 63-71): the region is checked and shrunk by the padding.\<close>

definition paste_region :: "int \<times> int \<Rightarrow> int \<times> int \<Rightarrow> int \<Rightarrow> error + int \<times> int" where
  "paste_region p1 p2 pad =
     (let x1 = fst p1; y1 = snd p1; x2 = fst p2; y2 = snd p2
      in if \<not> (x1 < x2 \<and> y1 < y2) then Inl InvalidGeometry
         else Inr (max 1 ((x2 - x1) - 2 * pad), max 1 ((y2 - y1) - 2 * pad)))"

text \<open>Step 8, first part (lines 77-93): the content size is checked, then the scale.\<close>

definition fit_scale :: "int \<times> int \<Rightarrow> int \<times> int \<Rightarrow> bool \<Rightarrow> error + rat" where
  "fit_scale region content upscale =
     (let region_w = fst region; region_h = snd region; cw = fst content; ch = snd content
      in if cw \<le> 0 \<or> ch \<le> 0 then Inl InvalidContentSize
         else (case py_truediv region_w cw of
                 Inl e \<Rightarrow> Inl e
               | Inr scale_w \<Rightarrow>
                   (case py_truediv region_h ch of
                      Inl e \<Rightarrow> Inl e
                    | Inr scale_h \<Rightarrow>
                        (let scale = min scale_w scale_h
                         in Inr (if \<not> upscale then min 1 scale else scale)))))"

text \<open>Step 8, second part (lines 96-97): one new dimension.\<close>

definition new_dim :: "int \<Rightarrow> rat \<Rightarrow> error + int" where
  "new_dim c scale =
     (case py_int_times_float c scale of
        Inl e \<Rightarrow> Inl e
      | Inr p \<Rightarrow> (case py_round p of Inl e \<Rightarrow> Inl e | Inr n \<Rightarrow> Inr (max 1 n)))"

definition new_size :: "int \<times> int \<Rightarrow> rat \<Rightarrow> error + int \<times> int" where
  "new_size content scale =
     (case new_dim (fst content) scale of
        Inl e \<Rightarrow> Inl e
      | Inr new_w \<Rightarrow> (case new_dim (snd content) scale of
                       Inl e \<Rightarrow> Inl e
                     | Inr new_h \<Rightarrow> Inr (new_w, new_h)))"

text \<open>Step 10 (lines 107-124): the paste origin.\<close>

definition paste_x :: "align \<Rightarrow> int \<Rightarrow> int \<Rightarrow> int \<Rightarrow> int \<Rightarrow> int \<Rightarrow> int" where
  "paste_x al x1 x2 pad region_w new_w =
     (case al of
        ALeft \<Rightarrow> x1 + pad
      | ACenter \<Rightarrow> x1 + pad + (region_w - new_w) div 2
      | ARight \<Rightarrow> x2 - pad - new_w)"

definition paste_y :: "valign \<Rightarrow> int \<Rightarrow> int \<Rightarrow> int \<Rightarrow> int \<Rightarrow> int \<Rightarrow> int" where
  "paste_y val y1 y2 pad region_h new_h =
     (case val of
        VTop \<Rightarrow> y1 + pad
      | VMiddle \<Rightarrow> y1 + pad + (region_h - new_h) div 2
      | VBottom \<Rightarrow> y2 - pad - new_h)"

text \<open>Step 11 (lines 129-139): the content is pasted, masked by its own alpha when it has one
  and \<open>keep_alpha\<close> is set.\<close>

definition paste_content ::
  "bool \<Rightarrow> nat \<Rightarrow> nat \<Rightarrow> int \<times> int \<Rightarrow> world \<Rightarrow> (error + unit) \<times> world" where
  "paste_content keep img resized xy w =
     (if keep \<and> alpha_band (heap w resized)
      then image_paste img resized xy (Some resized) w
      else image_paste img resized xy None w)"

text \<open>Step 12 (lines 142-150): the overlay is pasted over the whole canvas, or its absence
  is reported on the console (\<open>print\<close> is taken to succeed).\<close>

definition warning_text :: string where
  "warning_text = ''Warning: overlay image is not exist.''"

definition draw_overlay ::
  "overlay \<Rightarrow> nat option \<Rightarrow> nat \<Rightarrow> world \<Rightarrow> (error + unit) \<times> world" where
  "draw_overlay ov img_overlay img w =
     (if ov \<noteq> OvNone \<and> img_overlay \<noteq> None
      then (case img_overlay of
              Some o_ref \<Rightarrow> image_paste img o_ref (0, 0) (Some o_ref) w
            | None \<Rightarrow> (Inr (), w))
      else if ov \<noteq> OvNone \<and> img_overlay = None
      then (Inr (), log_call (CallPrint warning_text) w)
      else (Inr (), w))"

text \<open>Step 10 for both axes.\<close>

definition paste_origin :: "args \<Rightarrow> int \<times> int \<Rightarrow> int \<times> int \<Rightarrow> int \<times> int" where
  "paste_origin a region new =
     (paste_x (align a) (fst (top_left a)) (fst (bottom_right a)) (padding a)
        (fst region) (fst new),
      paste_y (valign a) (snd (top_left a)) (snd (bottom_right a)) (padding a)
        (snd region) (snd new))"

text \<open>\<open>content_image.size\<close>.\<close>

definition image_size :: "world \<Rightarrow> nat \<Rightarrow> int \<times> int" where
  "image_size w r = (img_w (heap w r), img_h (heap w r))"

text \<open>The result: the PNG bytes, with the local variables of the call kept for reference.\<close>

record outcome =
  png :: "nat list"
  img :: nat
  resized :: nat
  region_w :: int
  region_h :: int
  cw :: int
  ch :: int
  scale :: rat
  new_w :: int
  new_h :: int
  px :: int
  py :: int

definition paste_image_auto :: "env \<Rightarrow> args \<Rightarrow> world \<Rightarrow> (error + outcome) \<times> world" where
  "paste_image_auto E a w0 =
     then_do (raise_or (check_content (content_image a)) w0) (\<lambda>content w1.
     then_do (prepare_base E (image_source a) w1) (\<lambda>base w2.
     then_do (prepare_overlay E (image_overlay a) w2) (\<lambda>img_overlay w3.
     then_do (raise_or (paste_region (top_left a) (bottom_right a) (padding a)) w3) (\<lambda>region w4.
     then_do (raise_or (fit_scale region (image_size w4 content) (allow_upscale a)) w4) (\<lambda>s w5.
     then_do (raise_or (new_size (image_size w5 content) s) w5) (\<lambda>new w6.
     then_do (image_resize E content new w6) (\<lambda>rsz w7.
     then_do (paste_content (keep_alpha a) base rsz (paste_origin a region new) w7) (\<lambda>u w8.
     then_do (draw_overlay (image_overlay a) img_overlay base w8) (\<lambda>u w9.
     then_do (image_save_png E base w9) (\<lambda>bytes w10.
       (Inr \<lparr>png = bytes, img = base, resized = rsz,
             region_w = fst region, region_h = snd region,
             cw = fst (image_size w4 content), ch = snd (image_size w4 content), scale = s,
             new_w = fst new, new_h = snd new,
             px = fst (paste_origin a region new), py = snd (paste_origin a region new)\<rparr>,
        w10)))))))))))"

section \<open>Notions used in the statements\<close>

text \<open>Calls that only prepare the inputs: copying an image, testing a path, opening a file.\<close>

definition preparation_call :: "libcall \<Rightarrow> bool" where
  "preparation_call c =
     (case c of CallCopy r \<Rightarrow> True | CallIsFile p \<Rightarrow> True | CallOpen p \<Rightarrow> True | _ \<Rightarrow> False)"

text \<open>Between \<open>w\<close> and \<open>w'\<close> only preparation calls were made.\<close>

definition only_preparation :: "world \<Rightarrow> world \<Rightarrow> bool" where
  "only_preparation w w' =
     (take (length (calls w)) (calls w') = calls w \<and>
      list_all preparation_call (drop (length (calls w)) (calls w')))"

text \<open>The calls a missing overlay file adds: the test of the path and the warning.\<close>

definition diagnostic_call :: "string \<Rightarrow> libcall \<Rightarrow> bool" where
  "diagnostic_call p c = (c = CallIsFile p \<or> c = CallPrint warning_text)"

text \<open>Two worlds with the same store and, diagnostics apart, the same calls.\<close>

definition same_but_diagnostics :: "string \<Rightarrow> world \<Rightarrow> world \<Rightarrow> bool" where
  "same_but_diagnostics p w v =
     (heap w = heap v \<and> fresh w = fresh v \<and>
      filter (\<lambda>c. \<not> diagnostic_call p c) (calls w) = filter (\<lambda>c. \<not> diagnostic_call p c) (calls v))"

text \<open>Two step results with the same value and such worlds.\<close>

definition sim :: "string \<Rightarrow> (error + 'a) \<times> world \<Rightarrow> (error + 'a) \<times> world \<Rightarrow> bool" where
  "sim p m m' = (fst m = fst m' \<and> same_but_diagnostics p (snd m) (snd m'))"

section \<open>A concrete call\<close>

text \<open>A 10 by 10 opaque white canvas, a 3 by 2 content image whose left column is fully
  transparent, and an empty image; the content is fitted into the region (0, 0) - (2, 2).\<close>

definition ex_canvas :: image where
  "ex_canvas = \<lparr>xsize = 10, ysize = 10, alpha_band = False,
                 px_at = (\<lambda>x y. (255, 255, 255, 255))\<rparr>"

definition ex_content :: image where
  "ex_content = \<lparr>xsize = 3, ysize = 2, alpha_band = True,
                  px_at = (\<lambda>x y. if x = 0 then (9, 9, 9, 0) else (7, 7, 7, 255))\<rparr>"

definition ex_empty :: image where
  "ex_empty = \<lparr>xsize = 0, ysize = 0, alpha_band = False, px_at = (\<lambda>x y. (0, 0, 0, 255))\<rparr>"

definition ex_env :: env where
  "ex_env = \<lparr>isfile = (\<lambda>p. False), decode = (\<lambda>p. None),
             lanczos = (\<lambda>im w h x y. px_at im x y),
             encode_png = (\<lambda>im. Some [nat (img_w im), nat (img_h im),
                                        unat (fst (px_at im 0 0)), unat (fst (px_at im 1 0))])\<rparr>"

definition ex_world :: world where
  "ex_world = \<lparr>heap = (\<lambda>r. if r = 0 then ex_canvas else if r = 1 then ex_content else ex_empty),
               fresh = 3, calls = []\<rparr>"

definition ex_args :: args where
  "ex_args = \<lparr>image_source = SrcImage 0, top_left = (0, 0), bottom_right = (2, 2),
              content_image = ObjImage 1, align = ALeft, valign = VTop, padding = 0,
              allow_upscale = False, keep_alpha = True, image_overlay = OvNone\<rparr>"

text \<open>The float nearest to two thirds, the scale of that call.\<close>

definition s23 :: rat where
  "s23 = 6004799503160661 / 9007199254740992"

definition ex_out :: outcome where
  "ex_out = \<lparr>png = [10, 10, 255, 7], img = 3, resized = 4, region_w = 2, region_h = 2,
             cw = 3, ch = 2, scale = s23, new_w = 2, new_h = 1, px = 0, py = 0\<rparr>"

text \<open>A 3 by 4 content image, for a product that does not round down.\<close>

definition ex_tall :: image where
  "ex_tall = \<lparr>xsize = 3, ysize = 4, alpha_band = False, px_at = (\<lambda>x y. (7, 7, 7, 255))\<rparr>"

section \<open>Binary64 rounding\<close>

lemma bitlen_powi_lower:
  assumes "0 < a" shows "(2::rat) powi (bitlen a - 1) \<le> of_int a"
proof -
  have b1: "1 \<le> bitlen a" using assms bitlen_eq_zero_iff[of a] bitlen_nonneg[of a] by linarith
  have "(2::int) ^ nat (bitlen a - 1) \<le> a" using bitlen_bounds[OF assms] by simp
  then have "(of_int ((2::int) ^ nat (bitlen a - 1)) :: rat) \<le> of_int a"
    by (simp only: of_int_le_iff)
  then show ?thesis using b1 by (simp add: power_int_nonneg_exp)
qed

lemma bitlen_powi_upper:
  assumes "0 < a" shows "of_int a < (2::rat) powi bitlen a"
proof -
  have "a < (2::int) ^ nat (bitlen a)" using bitlen_bounds[OF assms] by simp
  then have "(of_int a :: rat) < of_int ((2::int) ^ nat (bitlen a))"
    by (simp only: of_int_less_iff)
  then show ?thesis using bitlen_nonneg[of a] by (simp add: power_int_nonneg_exp)
qed

lemma powi2_add: "(2::rat) powi (m + n) = 2 powi m * 2 powi n"
  by (simp add: power_int_add)

lemma powi2_diff: "(2::rat) powi (m - n) = 2 powi m / 2 powi n"
  by (simp add: power_int_diff)

lemma powi2_pos: "0 < (2::rat) powi n"
  by (simp add: zero_less_power_int)

lemma powi2_less_iff: "((2::rat) powi m < 2 powi n) = (m < n)"
proof
  assume "(2::rat) powi m < 2 powi n"
  show "m < n"
  proof (rule ccontr)
    assume "\<not> m < n"
    then have "n \<le> m" by simp
    then have "(2::rat) powi n \<le> 2 powi m" by (intro power_int_increasing) simp_all
    with \<open>(2::rat) powi m < 2 powi n\<close> show False by simp
  qed
next
  assume "m < n" then show "(2::rat) powi m < 2 powi n"
    by (intro power_int_strict_increasing) simp_all
qed

lemma powi2_le_iff: "((2::rat) powi m \<le> 2 powi n) = (m \<le> n)"
  using powi2_less_iff[of n m] by (simp add: not_less[symmetric])

lemma ilog2_cond:
  assumes "0 < a" "0 < b"
  shows "(if 0 \<le> d then b * 2 ^ nat d \<le> a else b \<le> a * 2 ^ nat (- d))
         = ((2::rat) powi d \<le> of_int a / of_int b)"
proof (cases "0 \<le> d")
  case True
  have "(b * 2 ^ nat d \<le> a) = ((of_int (b * 2 ^ nat d) :: rat) \<le> of_int a)"
    by (simp only: of_int_le_iff)
  also have "\<dots> = ((2::rat) ^ nat d \<le> of_int a / of_int b)"
    using assms by (simp add: pos_le_divide_eq mult.commute)
  finally show ?thesis using True by (simp add: power_int_nonneg_exp)
next
  case False
  have "(b \<le> a * 2 ^ nat (- d)) = ((of_int b :: rat) \<le> of_int (a * 2 ^ nat (- d)))"
    by (simp only: of_int_le_iff)
  also have "\<dots> = (1 / (2::rat) ^ nat (- d) \<le> of_int a / of_int b)"
    using assms by (simp add: field_simps)
  finally show ?thesis using False by (simp add: power_int_def field_simps)
qed

lemma ilog2_bounds:
  assumes "0 < q"
  shows "2 powi ilog2 q \<le> q" and "q < 2 powi (ilog2 q + 1)"
proof -
  obtain a b where ab: "quotient_of q = (a, b)" by (cases "quotient_of q")
  have b: "0 < b" using ab by (rule quotient_of_denom_pos)
  have q: "q = of_int a / of_int b" using ab by (rule quotient_of_div)
  have a: "0 < a" using assms b q by (simp add: zero_less_divide_iff)
  define d where "d = bitlen a - bitlen b"
  have il: "ilog2 q = (if 2 powi d \<le> q then d else d - 1)"
    unfolding ilog2_def ab prod.case Let_def d_def[symmetric] ilog2_cond[OF a b] q[symmetric]
    by (rule refl)
  have ra: "(0::rat) < of_int a" and rb: "(0::rat) < of_int b" using a b by simp_all
  have up: "q < 2 powi (d + 1)"
  proof -
    have "of_int a < (2::rat) powi bitlen a" by (rule bitlen_powi_upper[OF a])
    moreover have "(2::rat) powi (bitlen b - 1) \<le> of_int b" by (rule bitlen_powi_lower[OF b])
    ultimately have "of_int a * (2::rat) powi (bitlen b - 1) < 2 powi bitlen a * of_int b"
      using ra rb powi2_pos by (intro mult_less_le_imp_less) (simp_all add: less_imp_le)
    then have "q * 2 powi (bitlen b - 1) < 2 powi bitlen a"
      unfolding q using rb by (simp add: field_simps)
    then have "q < 2 powi bitlen a / 2 powi (bitlen b - 1)"
      using powi2_pos[of "bitlen b - 1"] by (simp add: pos_less_divide_eq)
    also have "\<dots> = 2 powi (bitlen a - (bitlen b - 1))" by (simp only: powi2_diff)
    also have "bitlen a - (bitlen b - 1) = d + 1" by (simp add: d_def)
    finally show ?thesis .
  qed
  have lo: "2 powi (d - 1) \<le> q"
  proof -
    have "of_int b < (2::rat) powi bitlen b" by (rule bitlen_powi_upper[OF b])
    moreover have "(2::rat) powi (bitlen a - 1) \<le> of_int a" by (rule bitlen_powi_lower[OF a])
    ultimately have "(2::rat) powi (bitlen a - 1) * of_int b \<le> of_int a * 2 powi bitlen b"
      by (intro mult_mono) (use a b in \<open>simp_all add: less_imp_le\<close>)
    then have "(2::rat) powi (bitlen a - 1) \<le> q * 2 powi bitlen b"
      unfolding q using rb by (simp add: field_simps)
    then have "2 powi (bitlen a - 1) / 2 powi bitlen b \<le> q"
      using powi2_pos[of "bitlen b"] by (simp add: pos_divide_le_eq)
    moreover have "(2::rat) powi (bitlen a - 1) / 2 powi bitlen b = 2 powi (bitlen a - 1 - bitlen b)"
      by (simp only: powi2_diff)
    moreover have "bitlen a - 1 - bitlen b = d - 1" by (simp add: d_def)
    ultimately show ?thesis by simp
  qed
  show "2 powi ilog2 q \<le> q" using il lo by (simp split: if_splits)
  show "q < 2 powi (ilog2 q + 1)" using il up by (simp split: if_splits)
qed

lemma ilog2_unique:
  assumes "0 < q" "2 powi e \<le> q" "q < 2 powi (e + 1)"
  shows "ilog2 q = e"
proof -
  have "(2::rat) powi e < 2 powi (ilog2 q + 1)"
    using assms(2) ilog2_bounds(2)[OF assms(1)] by (rule le_less_trans)
  moreover have "(2::rat) powi ilog2 q < 2 powi (e + 1)"
    using ilog2_bounds(1)[OF assms(1)] assms(3) by (rule le_less_trans)
  ultimately show ?thesis by (simp add: powi2_less_iff)
qed

lemma rhe_cases:
  "round_half_even x = \<lfloor>x\<rfloor> \<or> round_half_even x = \<lfloor>x\<rfloor> + 1"
  by (simp add: round_half_even_def Let_def)

lemma floor_obtain:
  obtains f :: int where "\<lfloor>x :: rat\<rfloor> = f" "of_int f \<le> x" "x < of_int f + 1"
proof
  show "\<lfloor>x\<rfloor> = \<lfloor>x\<rfloor>" ..
  show "of_int \<lfloor>x\<rfloor> \<le> x" by simp
  show "x < of_int \<lfloor>x\<rfloor> + 1" by linarith
qed

lemma rhe_upper: "of_int (round_half_even x) \<le> x + 1 / 2"
proof -
  obtain f where f: "\<lfloor>x\<rfloor> = f" "of_int f \<le> x" "x < of_int f + 1" by (rule floor_obtain)
  show ?thesis unfolding round_half_even_def Let_def f(1) using f(2,3) by auto
qed

lemma rhe_lower: "x - 1 / 2 \<le> of_int (round_half_even x)"
proof -
  obtain f where f: "\<lfloor>x\<rfloor> = f" "of_int f \<le> x" "x < of_int f + 1" by (rule floor_obtain)
  show ?thesis unfolding round_half_even_def Let_def f(1) using f(2,3) by auto
qed

lemma rhe_of_int [simp]: "round_half_even (of_int n) = n"
  by (simp add: round_half_even_def)

lemma rhe_le: assumes "x < of_int n + 1 / 2" shows "round_half_even x \<le> n"
proof -
  have "(of_int (round_half_even x) :: rat) < of_int (n + 1)"
    using rhe_upper[of x] assms by simp
  then have "round_half_even x < n + 1" by (simp only: of_int_less_iff)
  then show ?thesis by simp
qed

lemma rhe_ge: assumes "of_int n - 1 / 2 < x" shows "n \<le> round_half_even x"
proof -
  have "(of_int (n - 1) :: rat) < of_int (round_half_even x)"
    using rhe_lower[of x] assms by simp
  then have "n - 1 < round_half_even x" by (simp only: of_int_less_iff)
  then show ?thesis by simp
qed

lemma rhe_eqI:
  assumes "of_int n - 1 / 2 < x" "x < of_int n + 1 / 2" shows "round_half_even x = n"
  using rhe_le[OF assms(2)] rhe_ge[OF assms(1)] by simp

lemma rhe_tie: "round_half_even (of_int n + 1 / 2) = (if even n then n else n + 1)"
proof -
  have "\<lfloor>(of_int n + 1 / 2 :: rat)\<rfloor> = n" by linarith
  then show ?thesis by (simp add: round_half_even_def Let_def)
qed

lemma fl_round_pos:
  assumes "0 < q"
  shows "fl_round q =
     (let t = max (ilog2 q) (- 1022) - 52;
          v = of_int (round_half_even (q / 2 powi t)) * 2 powi t
      in if v < 2 powi 1024 then Some v else None)"
proof -
  have "0 \<le> round_half_even (q / 2 powi t)" for t
  proof (rule rhe_ge)
    have "0 \<le> q / 2 powi t" using assms powi2_pos[of t] by (simp add: less_imp_le)
    then show "of_int 0 - 1 / 2 < q / 2 powi t" by simp
  qed
  then have "\<bar>of_int (round_half_even (q / 2 powi t)) * 2 powi t\<bar>
        = of_int (round_half_even (q / 2 powi t)) * (2::rat) powi t" for t
    using powi2_pos[of t] by (simp add: abs_mult less_imp_le)
  then show ?thesis using assms by (simp add: fl_round_def Let_def)
qed

lemma fl_round_eqI:
  assumes "0 < q" "2 powi e \<le> q" "q < 2 powi (e + 1)" "- 1022 \<le> e"
    and "round_half_even (q / 2 powi (e - 52)) = m"
    and "of_int m * 2 powi (e - 52) < (2::rat) powi 1024"
  shows "fl_round q = Some (of_int m * 2 powi (e - 52))"
  using assms(4-6) by (simp add: fl_round_pos[OF assms(1)] ilog2_unique[OF assms(1-3)] Let_def max_def)

lemma fl_round_error:
  assumes "2 powi (- 1022) \<le> q" "fl_round q = Some v"
  shows "\<bar>v - q\<bar> \<le> q / 2 ^ 53"
proof -
  have q: "0 < q" using assms(1) powi2_pos[of "- 1022"] by (rule less_le_trans[rotated])
  define e where "e = ilog2 q"
  have e: "2 powi e \<le> q" "q < 2 powi (e + 1)" unfolding e_def using ilog2_bounds[OF q] by simp_all
  have "(2::rat) powi (- 1022) < 2 powi (e + 1)" using assms(1) e(2) by (rule le_less_trans)
  then have "- 1022 < e + 1" by (simp only: powi2_less_iff)
  then have e_lo: "- 1022 \<le> e" by simp
  define t where "t = e - 52"
  define y where "y = q / 2 powi t"
  have v: "v = of_int (round_half_even y) * 2 powi t"
    using assms(2) e_lo unfolding fl_round_pos[OF q] Let_def e_def[symmetric] y_def t_def
    by (simp add: max_def split: if_splits)
  have qy: "q = y * 2 powi t" unfolding y_def using powi2_pos[of t] by simp
  have "\<bar>v - q\<bar> = \<bar>of_int (round_half_even y) - y\<bar> * 2 powi t"
    unfolding v using powi2_pos[of t] by (subst qy) (simp add: left_diff_distrib[symmetric] abs_mult less_imp_le)
  also have "\<dots> \<le> (1 / 2) * 2 powi t"
  proof (rule mult_right_mono)
    show "\<bar>of_int (round_half_even y) - y\<bar> \<le> 1 / 2"
      using rhe_upper[of y] rhe_lower[of y] by linarith
    show "0 \<le> (2::rat) powi t" using powi2_pos[of t] by (rule less_imp_le)
  qed
  also have "\<dots> = 2 powi e / 2 ^ 53"
    unfolding t_def by (simp add: powi2_diff)
  also have "\<dots> \<le> q / 2 ^ 53" using e(1) by (simp add: divide_right_mono)
  finally show ?thesis .
qed

lemma fl_round_exact:
  assumes "0 < m" "m < 2 ^ 53" "- 1074 \<le> k" "of_int m * 2 powi k < (2::rat) powi 1024"
  shows "fl_round (of_int m * 2 powi k) = Some (of_int m * 2 powi k)"
proof -
  define q :: rat where "q = of_int m * 2 powi k"
  have q: "0 < q" unfolding q_def using assms(1) powi2_pos[of k] by simp
  define e where "e = ilog2 q"
  have e: "2 powi e \<le> q" "q < 2 powi (e + 1)" unfolding e_def using ilog2_bounds[OF q] by simp_all
  have "(of_int m :: rat) < of_int (2 ^ 53)" using assms(2) by (simp only: of_int_less_iff)
  then have "q < 2 ^ 53 * 2 powi k" unfolding q_def using powi2_pos[of k] by simp
  also have "\<dots> = 2 powi (53 + k)" by (simp add: powi2_add)
  finally have qk: "q < 2 powi (53 + k)" .
  have "(2::rat) powi e < 2 powi (53 + k)" using e(1) qk by (rule le_less_trans)
  then have "e < 53 + k" by (simp only: powi2_less_iff)
  then have ek: "e - 52 \<le> k" by simp
  define t where "t = max e (- 1022) - 52"
  have tk: "t \<le> k" unfolding t_def using ek assms(3) by (simp add: max_def)
  define M where "M = m * 2 ^ nat (k - t)"
  have M: "(of_int M :: rat) = of_int m * 2 powi (k - t)"
    unfolding M_def using tk by (simp add: power_int_nonneg_exp)
  have "q / 2 powi t = of_int m * 2 powi (k - t)" unfolding q_def by (simp add: powi2_diff)
  then have "q / 2 powi t = of_int M" by (simp only: M)
  then have r: "round_half_even (q / 2 powi t) = M" by (simp only: rhe_of_int)
  have bk: "(of_int M :: rat) * 2 powi t = q"
    unfolding M q_def by (simp add: powi2_diff)
  have "fl_round q = (if of_int M * 2 powi t < (2::rat) powi 1024
                      then Some (of_int M * 2 powi t) else None)"
    unfolding fl_round_pos[OF q] Let_def e_def[symmetric] t_def[symmetric] r ..
  also have "\<dots> = (if q < (2::rat) powi 1024 then Some q else None)"
    by (simp only: bk)
  also have "\<dots> = Some q" using assms(4)[folded q_def] by (simp only: if_True)
  finally show ?thesis unfolding q_def .
qed

lemma fl_round_of_int:
  assumes "0 < n" "n < 2 ^ 53"
  shows "fl_round (of_int n) = Some (of_int n)"
proof -
  have "(of_int n :: rat) < of_int (2 ^ 53)" using assms(2) by (simp only: of_int_less_iff)
  then have "(of_int n :: rat) * 2 powi 0 < 2 powi 1024" by simp
  then show ?thesis using fl_round_exact[OF assms, of 0] by simp
qed

lemma fl_round_ge_one:
  assumes "1 \<le> q" "fl_round q = Some v"
  shows "1 \<le> v"
proof -
  have q: "0 < q" using assms(1) by simp
  define e where "e = ilog2 q"
  have e: "2 powi e \<le> q" "q < 2 powi (e + 1)" unfolding e_def using ilog2_bounds[OF q] by simp_all
  have "(2::rat) powi 0 < 2 powi (e + 1)" using assms(1) e(2) by simp
  then have "0 < e + 1" by (simp only: powi2_less_iff)
  then have e0: "0 \<le> e" by simp
  define t where "t = e - 52"
  have v: "v = of_int (round_half_even (q / 2 powi t)) * 2 powi t"
    using assms(2) e0 unfolding fl_round_pos[OF q] Let_def e_def[symmetric] t_def
    by (simp add: max_def split: if_splits)
  define y where "y = q / 2 powi t"
  have "e - t = 52" unfolding t_def by simp
  then have "(2::rat) powi 52 = 2 powi e / 2 powi t" by (simp only: powi2_diff[symmetric])
  also have "\<dots> \<le> y" unfolding y_def using e(1) powi2_pos[of t] by (simp add: divide_right_mono less_imp_le)
  finally have "(2::rat) powi 52 \<le> y" .
  moreover have "(2::rat) powi 52 = of_int (2 ^ 52)" by simp
  ultimately have "(of_int (2 ^ 52) :: rat) - 1 / 2 < y" by linarith
  then have "2 ^ 52 \<le> round_half_even (q / 2 powi t)" unfolding y_def by (rule rhe_ge)
  then have "(of_int (2 ^ 52) :: rat) \<le> of_int (round_half_even (q / 2 powi t))"
    by (simp only: of_int_le_iff)
  then have "(2::rat) powi 52 * 2 powi t \<le> v" unfolding v using powi2_pos[of t]
    by (simp add: mult_right_mono less_imp_le)
  moreover have "(2::rat) powi 52 * 2 powi t = 2 powi e"
    using \<open>e - t = 52\<close> powi2_add[of 52 t] by (simp add: algebra_simps)
  moreover have "(1::rat) \<le> 2 powi e" using e0 by (simp add: one_le_power_int)
  ultimately show ?thesis by simp
qed

lemma fl_round_le_one:
  assumes "0 < q" "q \<le> 1" "fl_round q = Some v"
  shows "v \<le> 1"
proof (cases "q = 1")
  case True
  then show ?thesis using assms(3) fl_round_of_int[of 1] by simp
next
  case False
  then have q1: "q < 1" using assms(2) by simp
  define e where "e = ilog2 q"
  have e: "2 powi e \<le> q" "q < 2 powi (e + 1)" unfolding e_def using ilog2_bounds[OF assms(1)] by simp_all
  have "(2::rat) powi e < 2 powi 0" using e(1) q1 by simp
  then have "e < 0" by (simp only: powi2_less_iff)
  then have e0: "e + 1 \<le> 0" by simp
  define t where "t = max e (- 1022) - 52"
  have v: "v = of_int (round_half_even (q / 2 powi t)) * 2 powi t"
    using assms(3) unfolding fl_round_pos[OF assms(1)] Let_def e_def[symmetric] t_def
    by (simp split: if_splits)
  define j where "j = max e (- 1022) + 1"
  have j: "e + 1 \<le> j" "j \<le> 0" "j - t = 53" unfolding j_def t_def using e0 by (simp_all add: max_def)
  have jt: "j = 53 + t" using j(3) by simp
  define y where "y = q / 2 powi t"
  have "(2::rat) powi (e + 1) \<le> 2 powi j" using j(1) by (simp only: powi2_le_iff)
  then have "q < 2 powi j" using e(2) by simp
  then have "y < 2 powi j / 2 powi t" unfolding y_def using powi2_pos[of t] by (simp add: divide_strict_right_mono)
  also have "\<dots> = 2 powi 53" using j(3) by (simp only: powi2_diff[symmetric])
  finally have "y < 2 powi 53" .
  moreover have "(2::rat) powi 53 = of_int (2 ^ 53)" by simp
  ultimately have "y < of_int (2 ^ 53) + 1 / 2" by linarith
  then have "round_half_even (q / 2 powi t) \<le> 2 ^ 53" unfolding y_def by (rule rhe_le)
  then have "(of_int (round_half_even (q / 2 powi t)) :: rat) \<le> of_int (2 ^ 53)"
    by (simp only: of_int_le_iff)
  then have "v \<le> 2 powi 53 * 2 powi t" unfolding v using powi2_pos[of t]
    by (simp add: mult_right_mono less_imp_le)
  also have "\<dots> = 2 powi j" unfolding jt by (simp only: powi2_add)
  also have "\<dots> \<le> 2 powi 0" using j(2) by (simp only: powi2_le_iff)
  finally show ?thesis by simp
qed

lemma rhe_numeral [simp]: "round_half_even (numeral k) = numeral k"
  using rhe_of_int[of "numeral k"] by simp

lemma rhe_near: "\<bar>of_int (round_half_even x) - x\<bar> \<le> 1 / 2"
  using rhe_upper[of x] rhe_lower[of x] by linarith

lemma rhe_tie_even:
  assumes "\<bar>of_int (round_half_even x) - x\<bar> = 1 / 2"
  shows "even (round_half_even x)"
proof -
  obtain f where f: "\<lfloor>x\<rfloor> = f" "of_int f \<le> x" "x < of_int f + 1" by (rule floor_obtain)
  show ?thesis
    using assms f(2,3) unfolding round_half_even_def Let_def f(1)
    by (auto split: if_splits)
qed



section \<open>The arithmetic of the scale\<close>

lemma py_truediv_fl:
  assumes "py_truediv r c = Inr sw" "c \<noteq> 0"
  shows "fl_round (of_int r / of_int c) = Some sw"
  using assms by (auto simp: py_truediv_def split: option.splits)

lemma small_pow: "(2::rat) powi (- 1022) \<le> 1 / 2 ^ 32"
proof -
  have "(2::rat) powi (- 1022) \<le> 2 powi (- 32)" by (simp only: powi2_le_iff)
  then show ?thesis by (simp add: power_int_minus_divide)
qed

lemma py_truediv_error: "py_truediv x y = Inl e \<Longrightarrow> y \<noteq> 0 \<Longrightarrow> e = OverflowError"
  by (auto simp: py_truediv_def split: option.splits if_splits)

lemma py_truediv_bounds:
  assumes c: "1 \<le> c" "c < 2147483648" and r: "1 \<le> r" and d: "py_truediv r c = Inr sw"
  shows "of_int r * (1 - 1 / 2 ^ 53) \<le> sw * of_int c"
    and "sw * of_int c \<le> of_int r * (1 + 1 / 2 ^ 53)"
    and "1 / 2 ^ 32 \<le> sw"
proof -
  define q :: rat where "q = of_int r / of_int c"
  define C :: rat where "C = of_int c"
  define R :: rat where "R = of_int r"
  have C: "1 \<le> C" "C < 2147483648" unfolding C_def using c by simp_all
  have R: "1 \<le> R" unfolding R_def using r by simp
  have q: "q = R / C" "q * C = R" unfolding q_def C_def R_def using c by simp_all
  have "1 / 2147483648 \<le> 1 / C" using C by (simp add: field_simps)
  also have "\<dots> \<le> R / C" using R C by (simp add: divide_right_mono)
  finally have qlo: "1 / 2147483648 \<le> q" unfolding q(1) .
  then have "(2::rat) powi (- 1022) \<le> q" using small_pow by simp
  moreover have "fl_round q = Some sw" unfolding q_def using py_truediv_fl[OF d] c by simp
  ultimately have e: "\<bar>sw - q\<bar> \<le> q / 2 ^ 53" by (rule fl_round_error)
  have "\<bar>sw * C - R\<bar> = \<bar>sw - q\<bar> * C" unfolding q(2)[symmetric] using C
    by (simp add: left_diff_distrib[symmetric] abs_mult)
  also have "\<dots> \<le> q / 2 ^ 53 * C" using e C by (intro mult_right_mono) simp_all
  also have "\<dots> = R / 2 ^ 53" using q(2) by simp
  finally have eR: "\<bar>sw * C - R\<bar> \<le> R / 2 ^ 53" .
  have m: "R * (1 - 1 / 2 ^ 53) = R - R / 2 ^ 53" "R * (1 + 1 / 2 ^ 53) = R + R / 2 ^ 53"
    by (simp_all add: algebra_simps)
  have "R * (1 - 1 / 2 ^ 53) \<le> sw * C" unfolding m using eR by linarith
  then show "of_int r * (1 - 1 / 2 ^ 53) \<le> sw * of_int c" unfolding R_def C_def .
  have "sw * C \<le> R * (1 + 1 / 2 ^ 53)" unfolding m using eR by linarith
  then show "sw * of_int c \<le> of_int r * (1 + 1 / 2 ^ 53)" unfolding R_def C_def .
  have "q - q / 2 ^ 53 \<le> sw" using e by linarith
  moreover have "q / 2 ^ 53 \<le> q / 2" using qlo by simp
  ultimately have "q / 2 \<le> sw" by linarith
  moreover have "1 / 2 ^ 32 \<le> q / 2" using qlo by simp
  ultimately show "1 / 2 ^ 32 \<le> sw" by (rule order_trans[rotated])
qed

lemma py_truediv_ge_one:
  assumes "1 \<le> c" "c \<le> r" "py_truediv r c = Inr sw"
  shows "1 \<le> sw"
proof (rule fl_round_ge_one)
  show "fl_round (of_int r / of_int c) = Some sw" using py_truediv_fl[OF assms(3)] assms(1) by simp
  have "(of_int c :: rat) \<le> of_int r" using assms(2) by (simp only: of_int_le_iff)
  then show "1 \<le> (of_int r :: rat) / of_int c" using assms(1) by (simp add: le_divide_eq)
qed

lemma py_truediv_le_one:
  assumes "1 \<le> c" "1 \<le> r" "r \<le> c" "py_truediv r c = Inr sw"
  shows "sw \<le> 1"
proof (rule fl_round_le_one)
  show "fl_round (of_int r / of_int c) = Some sw" using py_truediv_fl[OF assms(4)] assms(1) by simp
  show "0 < (of_int r :: rat) / of_int c" using assms(1,2) by simp
  have "(of_int r :: rat) \<le> of_int c" using assms(3) by (simp only: of_int_le_iff)
  then show "(of_int r :: rat) / of_int c \<le> 1" using assms(1) by (simp add: divide_le_eq)
qed


lemma ratio_error:
  assumes c: "1 \<le> c" "c < 2147483648" and r: "1 \<le> r" and d: "py_truediv r c = Inr sw"
  shows "\<bar>sw - of_int r / of_int c\<bar> \<le> of_int r / of_int c / 2 ^ 53"
proof -
  have "(1::rat) / 2147483648 \<le> 1 / of_int c" using c by (simp add: field_simps)
  also have "\<dots> \<le> of_int r / of_int c" using r c by (simp add: divide_right_mono)
  finally have "(1::rat) / 2147483648 \<le> of_int r / of_int c" .
  moreover have "(1::rat) / 2 ^ 32 \<le> 1 / 2147483648" by simp
  ultimately have "(1::rat) / 2 ^ 32 \<le> of_int r / of_int c" by (rule order_trans[rotated])
  with small_pow have "(2::rat) powi (- 1022) \<le> of_int r / of_int c" by (rule order_trans)
  moreover have "fl_round (of_int r / of_int c) = Some sw" using py_truediv_fl[OF d] c by simp
  ultimately show ?thesis by (rule fl_round_error)
qed

lemma new_dim_unfold:
  assumes c: "1 \<le> c" "c < 2147483648" and n: "new_dim c s = Inr n"
  obtains v where "fl_round (of_int c * s) = Some v" "n = max 1 (round_half_even v)"
proof -
  have "fl_round (of_int c) = Some (of_int c)" using c by (intro fl_round_of_int) simp_all
  then show ?thesis using n that
    by (auto simp: new_dim_def py_int_times_float_def py_round_def split: option.splits)
qed

lemma new_dim_product:
  assumes c: "1 \<le> c" "c < 2147483648" and n: "new_dim c s = Inr n"
  obtains v where "py_int_times_float c s = Inr (Finite v)" "fl_round (of_int c * s) = Some v"
    "n = max 1 (round_half_even v)"
proof -
  have "fl_round (of_int c) = Some (of_int c)" using c by (intro fl_round_of_int) simp_all
  then show ?thesis using n that
    by (auto simp: new_dim_def py_int_times_float_def py_round_def split: option.splits)
qed

lemma product_error:
  assumes c: "1 \<le> c" and s: "1 / 2 ^ 32 \<le> s" and v: "fl_round (of_int c * s) = Some v"
  shows "\<bar>v - of_int c * s\<bar> \<le> of_int c * s / 2 ^ 53"
proof -
  have "0 < s" using s by (rule less_le_trans[rotated]) simp
  have "(1::rat) \<le> of_int c" using c by simp
  then have "1 * s \<le> of_int c * s" using \<open>0 < s\<close> by (intro mult_right_mono) simp_all
  then have "s \<le> of_int c * s" by simp
  with s have "1 / 2 ^ 32 \<le> of_int c * s" by (rule order_trans)
  with small_pow have "(2::rat) powi (- 1022) \<le> of_int c * s" by (rule order_trans)
  then show ?thesis using v by (rule fl_round_error)
qed

lemma new_dim_bounds:
  assumes c: "1 \<le> c" "c < 2147483648" and s: "1 / 2 ^ 32 \<le> s" and n: "new_dim c s = Inr n"
  shows "of_int c * s * (1 - 1 / 2 ^ 53) - 1 / 2 \<le> of_int n"
    and "of_int n \<le> max 1 (of_int c * s * (1 + 1 / 2 ^ 53) + 1 / 2)"
    and "1 \<le> n"
proof -
  obtain v where v: "fl_round (of_int c * s) = Some v" "n = max 1 (round_half_even v)"
    using c n by (rule new_dim_unfold)
  define p :: rat where "p = of_int c * s"
  have "0 < s" using s by (rule less_le_trans[rotated]) simp
  have "(1::rat) \<le> of_int c" using c by simp
  then have "1 * s \<le> of_int c * s" using \<open>0 < s\<close> by (intro mult_right_mono) simp_all
  then have "s \<le> p" unfolding p_def by simp
  with s have "1 / 2 ^ 32 \<le> p" by (rule order_trans)
  with small_pow have "(2::rat) powi (- 1022) \<le> p" by (rule order_trans)
  then have e: "\<bar>v - p\<bar> \<le> p / 2 ^ 53" using v(1)[folded p_def] by (rule fl_round_error)
  have m: "p * (1 - 1 / 2 ^ 53) = p - p / 2 ^ 53" "p * (1 + 1 / 2 ^ 53) = p + p / 2 ^ 53"
    by (simp_all add: algebra_simps)
  have lo: "p * (1 - 1 / 2 ^ 53) - 1 / 2 \<le> of_int (round_half_even v)"
    unfolding m using e rhe_lower[of v] by linarith
  have hi: "of_int (round_half_even v) \<le> p * (1 + 1 / 2 ^ 53) + 1 / 2"
    unfolding m using e rhe_upper[of v] by linarith
  have nn: "(of_int n :: rat) = max 1 (of_int (round_half_even v))" unfolding v(2) by simp
  have "p * (1 - 1 / 2 ^ 53) - 1 / 2 \<le> of_int n" using lo unfolding nn by linarith
  then show "of_int c * s * (1 - 1 / 2 ^ 53) - 1 / 2 \<le> of_int n" unfolding p_def .
  have "of_int n \<le> max 1 (p * (1 + 1 / 2 ^ 53) + 1 / 2)" using hi unfolding nn by linarith
  then show "of_int n \<le> max 1 (of_int c * s * (1 + 1 / 2 ^ 53) + 1 / 2)" unfolding p_def .
  show "1 \<le> n" unfolding v(2) by simp
qed

lemma new_dim_one:
  assumes "1 \<le> c" "c < 2147483648"
  shows "new_dim c 1 = Inr c"
proof -
  have "fl_round (of_int c) = Some (of_int c)" using assms by (intro fl_round_of_int) simp_all
  then show ?thesis using assms by (simp add: new_dim_def py_int_times_float_def py_round_def)
qed

lemma new_dim_near:
  assumes c: "1 \<le> c" "c < 2147483648" and s: "1 / 2 ^ 32 \<le> s" and n: "new_dim c s = Inr n"
  shows "n = 1 \<or> \<bar>of_int n / of_int c - s\<bar> \<le> 1 / 2 / of_int c + s / 2 ^ 53"
proof (cases "n = 1")
  case False
  define C :: rat where "C = of_int c"
  define N :: rat where "N = of_int n"
  have C: "0 < C" unfolding C_def using c by simp
  have "1 < n" using False new_dim_bounds(3)[OF c s n] by simp
  then have "1 < N" unfolding N_def by simp
  moreover have "N \<le> max 1 (C * s * (1 + 1 / 2 ^ 53) + 1 / 2)"
    using new_dim_bounds(2)[OF c s n] unfolding C_def N_def .
  ultimately have hi: "N \<le> C * s * (1 + 1 / 2 ^ 53) + 1 / 2" by (simp add: max_def split: if_splits)
  have lo: "C * s * (1 - 1 / 2 ^ 53) - 1 / 2 \<le> N"
    using new_dim_bounds(1)[OF c s n] unfolding C_def N_def .
  have m: "C * s * (1 + 1 / 2 ^ 53) = C * s + C * s / 2 ^ 53"
    "C * s * (1 - 1 / 2 ^ 53) = C * s - C * s / 2 ^ 53"
    by (simp_all add: algebra_simps)
  have "\<bar>N - C * s\<bar> \<le> 1 / 2 + C * s / 2 ^ 53" using hi lo unfolding m by linarith
  then have "\<bar>N - C * s\<bar> / C \<le> (1 / 2 + C * s / 2 ^ 53) / C"
    using C by (simp add: divide_right_mono)
  moreover have "\<bar>N - C * s\<bar> / C = \<bar>N / C - s\<bar>"
  proof -
    have "N / C - s = (N - C * s) / C" using C by (simp add: field_simps)
    then have "\<bar>N / C - s\<bar> = \<bar>N - C * s\<bar> / \<bar>C\<bar>" by (simp only: abs_divide)
    then show ?thesis using C by simp
  qed
  moreover have "(1 / 2 + C * s / 2 ^ 53) / C = 1 / 2 / C + s / 2 ^ 53"
    using C by (simp add: add_divide_distrib)
  ultimately show ?thesis unfolding C_def N_def by simp
qed simp

lemma new_dim_error: "new_dim c s = Inl e \<Longrightarrow> e = OverflowError"
  by (auto simp: new_dim_def py_int_times_float_def py_round_def split: option.splits sum.splits pyfloat.splits)


lemma new_size_error: "new_size content s = Inl e \<Longrightarrow> e = OverflowError"
  by (auto simp: new_size_def split: sum.splits dest: new_dim_error)

lemma new_size_success:
  assumes "new_size content s = Inr new"
  shows "new_dim (fst content) s = Inr (fst new)" "new_dim (snd content) s = Inr (snd new)"
  using assms by (auto simp: new_size_def split: sum.splits)

lemma placed_le_inner:
  assumes c: "1 \<le> c" "c < 2147483648" and r: "1 \<le> r" "r < 2147483648"
    and d: "py_truediv r c = Inr sw" and s: "1 / 2 ^ 32 \<le> s" "s \<le> sw"
    and n: "new_dim c s = Inr n"
  shows "n \<le> r"
proof -
  define R :: rat where "R = of_int r"
  define P :: rat where "P = of_int c * s"
  have R: "1 \<le> R" "R < 2147483648" unfolding R_def using r by simp_all
  have "of_int c * s \<le> of_int c * sw" using s(2) c by (intro mult_left_mono) simp_all
  also have "\<dots> \<le> R * (1 + 1 / 2 ^ 53)"
    using py_truediv_bounds(2)[OF c r(1) d] unfolding R_def by (simp add: mult.commute)
  finally have P: "P \<le> R * (1 + 1 / 2 ^ 53)" unfolding P_def .
  have "of_int n \<le> max 1 (P * (1 + 1 / 2 ^ 53) + 1 / 2)"
    using new_dim_bounds(2)[OF c s(1) n] unfolding P_def .
  moreover have "P * (1 + 1 / 2 ^ 53) \<le> R * (1 + 1 / 2 ^ 53) * (1 + 1 / 2 ^ 53)"
    using P by (intro mult_right_mono) simp_all
  moreover have "R * (1 + 1 / 2 ^ 53) * (1 + 1 / 2 ^ 53) = R + R * (2 / 2 ^ 53 + 1 / 2 ^ 106)"
    by (simp add: algebra_simps)
  moreover have "R * (2 / 2 ^ 53 + 1 / 2 ^ 106) \<le> 2147483648 * (2 / 2 ^ 53 + 1 / 2 ^ 106)"
    using R by (intro mult_right_mono) simp_all
  moreover have "(2147483648 :: rat) * (2 / 2 ^ 53 + 1 / 2 ^ 106) < 1 / 2" by simp
  ultimately have "(of_int n :: rat) < R + 1" using R(1) by linarith
  then have "(of_int n :: rat) < of_int (r + 1)" unfolding R_def by simp
  then have "n < r + 1" by (simp only: of_int_less_iff)
  then show ?thesis by simp
qed

lemma placed_ge_inner:
  assumes c: "1 \<le> c" "c < 2147483648" and r: "1 \<le> r"
    and d: "py_truediv r c = Inr sw" and n: "new_dim c sw = Inr n"
  shows "min r 2147483648 \<le> n"
proof -
  define R :: rat where "R = of_int r"
  define P :: rat where "P = of_int c * sw"
  define M :: rat where "M = of_int (min r 2147483648)"
  have R: "1 \<le> R" unfolding R_def using r by simp
  have M: "M \<le> R" "M \<le> 2147483648" unfolding M_def R_def by simp_all
  have P: "R * (1 - 1 / 2 ^ 53) \<le> P"
    using py_truediv_bounds(1)[OF c r d] unfolding R_def P_def by (simp add: mult.commute)
  have "P * (1 - 1 / 2 ^ 53) - 1 / 2 \<le> of_int n"
    using new_dim_bounds(1)[OF c py_truediv_bounds(3)[OF c r d] n] unfolding P_def .
  moreover have "R * (1 - 1 / 2 ^ 53) * (1 - 1 / 2 ^ 53) \<le> P * (1 - 1 / 2 ^ 53)"
    using P by (intro mult_right_mono) simp_all
  moreover have "M * (1 - 1 / 2 ^ 53) * (1 - 1 / 2 ^ 53) \<le> R * (1 - 1 / 2 ^ 53) * (1 - 1 / 2 ^ 53)"
    using M(1) by (intro mult_right_mono) simp_all
  moreover have "M * (1 - 1 / 2 ^ 53) * (1 - 1 / 2 ^ 53) = M - M * (2 / 2 ^ 53 - 1 / 2 ^ 106)"
    by (simp add: algebra_simps)
  moreover have "M * (2 / 2 ^ 53 - 1 / 2 ^ 106) \<le> 2147483648 * (2 / 2 ^ 53 - 1 / 2 ^ 106)"
    using M(2) by (intro mult_right_mono) simp_all
  moreover have "(2147483648 :: rat) * (2 / 2 ^ 53 - 1 / 2 ^ 106) < 1 / 2" by simp
  ultimately have "M - 1 < of_int n" by linarith
  then have "(of_int (min r 2147483648 - 1) :: rat) < of_int n" unfolding M_def by simp
  then have "min r 2147483648 - 1 < n" by (simp only: of_int_less_iff)
  then show ?thesis by simp
qed

lemma fit_scale_error:
  assumes "fit_scale region content upscale = Inl e"
  shows "if fst content \<le> 0 \<or> snd content \<le> 0 then e = InvalidContentSize else e = OverflowError"
  using assms py_truediv_error[of "fst region" "fst content" e] py_truediv_error[of "snd region" "snd content" e]
  by (auto simp: fit_scale_def Let_def split: sum.splits if_splits)

lemma fit_scale_invalid:
  "fst content \<le> 0 \<or> snd content \<le> 0 \<Longrightarrow> fit_scale region content upscale = Inl InvalidContentSize"
  by (simp add: fit_scale_def Let_def)

lemma fit_scale_success:
  assumes "fit_scale region content up = Inr s"
  obtains sw sh where "1 \<le> fst content" "1 \<le> snd content"
    "py_truediv (fst region) (fst content) = Inr sw"
    "py_truediv (snd region) (snd content) = Inr sh"
    "s = (if up then min sw sh else min 1 (min sw sh))"
  using assms by (auto simp: fit_scale_def Let_def split: if_splits sum.splits)


lemma paste_region_cases:
  "paste_region p1 p2 pad =
     (if fst p1 < fst p2 \<and> snd p1 < snd p2
      then Inr (max 1 (fst p2 - fst p1 - 2 * pad), max 1 (snd p2 - snd p1 - 2 * pad))
      else Inl InvalidGeometry)"
  by (simp add: paste_region_def Let_def)



section \<open>The steps of the raster library\<close>

lemma then_do_Inl [simp]: "then_do (Inl e, w) f = (Inl e, w)"
  by (simp add: then_do_def)

lemma then_do_Inr [simp]: "then_do (Inr x, w) f = f x w"
  by (simp add: then_do_def)

lemma img_w_range: "- 2147483648 \<le> img_w im" "img_w im < 2147483648"
  using sint_ge[of "xsize im"] sint_lt[of "xsize im"] by (simp_all add: img_w_def)

lemma img_h_range: "- 2147483648 \<le> img_h im" "img_h im < 2147483648"
  using sint_ge[of "ysize im"] sint_lt[of "ysize im"] by (simp_all add: img_h_def)

lemma sint_word_of_int_cint:
  "in_cint n \<Longrightarrow> sint (word_of_int n :: 32 word) = n"
  by (simp add: sint_sbintrunc' signed_take_bit_int_eq_self in_cint_def)

lemma image_copy_eq:
  "image_copy r w =
     (Inr (fresh w), \<lparr>heap = (heap w)(fresh w := heap w r), fresh = Suc (fresh w),
                      calls = calls w @ [CallCopy r]\<rparr>)"
  by (simp add: image_copy_def alloc_def log_call_def)

lemma image_open_rgba_cases:
  assumes "image_open_rgba E p w = (r, w')"
  shows "(r = Inl DecodeFailure \<and> decode E p = None \<and> w' = w\<lparr>calls := calls w @ [CallOpen p]\<rparr>) \<or>
         (\<exists>im. decode E p = Some im \<and> r = Inr (fresh w) \<and>
            w' = \<lparr>heap = (heap w)(fresh w := to_rgba im), fresh = Suc (fresh w),
                   calls = calls w @ [CallOpen p]\<rparr>)"
  using assms by (auto simp: image_open_rgba_def alloc_def log_call_def Let_def split: option.splits)

lemma image_open_rgba_alpha:
  assumes "image_open_rgba E p w = (Inr r, w')"
  shows "alpha_band (heap w' r)"
  using assms by (auto simp: image_open_rgba_def Let_def alloc_def to_rgba_def split: option.splits)

lemma only_preparation_trans:
  assumes "only_preparation w1 w2" "only_preparation w2 w3"
  shows "only_preparation w1 w3"
proof -
  obtain a where a: "calls w2 = calls w1 @ a" "list_all preparation_call a"
    using assms(1) unfolding only_preparation_def by (metis append_take_drop_id)
  obtain b where b: "calls w3 = calls w2 @ b" "list_all preparation_call b"
    using assms(2) unfolding only_preparation_def by (metis append_take_drop_id)
  show ?thesis unfolding only_preparation_def using a b by simp
qed

lemma prepare_base_cases:
  assumes "prepare_base E src w = (r, w')"
  shows "(r = Inl DecodeFailure \<and> heap w' = heap w \<and> fresh w' = fresh w \<or>
          r = Inr (fresh w) \<and> fresh w' = Suc (fresh w) \<and> (\<forall>x. x \<noteq> fresh w \<longrightarrow> heap w' x = heap w x))
         \<and> only_preparation w w'"
proof (cases src)
  case (SrcImage c)
  then show ?thesis using assms
    by (auto simp: prepare_base_def image_copy_eq only_preparation_def preparation_call_def)
next
  case (SrcPath p)
  then show ?thesis using assms image_open_rgba_cases[of E p w r w']
    by (auto simp: prepare_base_def only_preparation_def preparation_call_def)
qed

lemma prepare_overlay_cases:
  assumes "prepare_overlay E ov w = (r, w')"
  shows "(r = Inl DecodeFailure \<and> heap w' = heap w \<and> fresh w' = fresh w \<or>
          r = Inr None \<and> heap w' = heap w \<and> fresh w' = fresh w \<or>
          r = Inr (Some (fresh w)) \<and> fresh w' = Suc (fresh w) \<and> (\<forall>x. x \<noteq> fresh w \<longrightarrow> heap w' x = heap w x))
         \<and> only_preparation w w'"
proof (cases ov)
  case OvNone
  then show ?thesis using assms by (auto simp: prepare_overlay_def only_preparation_def)
next
  case (OvImage c)
  then show ?thesis using assms
    by (auto simp: prepare_overlay_def image_copy_eq only_preparation_def preparation_call_def)
next
  case (OvPath p)
  show ?thesis
  proof (cases "isfile E p")
    case False
    then show ?thesis using assms OvPath
      by (auto simp: prepare_overlay_def log_call_def only_preparation_def preparation_call_def)
  next
    case True
    obtain r1 w1 where o: "image_open_rgba E p (log_call (CallIsFile p) w) = (r1, w1)"
      by (cases "image_open_rgba E p (log_call (CallIsFile p) w)")
    from image_open_rgba_cases[OF o] show ?thesis using assms OvPath True o
      by (cases r1) (auto simp: prepare_overlay_def log_call_def only_preparation_def preparation_call_def Let_def)
  qed
qed



lemma prepare_overlay_missing:
  "\<not> isfile E p \<Longrightarrow> prepare_overlay E (OvPath p) w = (Inr None, log_call (CallIsFile p) w)"
  by (simp add: prepare_overlay_def)

lemma prepare_overlay_none: "prepare_overlay E OvNone v = (Inr None, v)"
  by (simp add: prepare_overlay_def)

lemma image_resize_cases:
  assumes "image_resize E c sz w = (r, w')"
  shows "calls w' = calls w @ [CallResize c sz] \<and>
         ((\<exists>e. r = Inl e) \<and> heap w' = heap w \<and> fresh w' = fresh w \<or>
          r = Inr (fresh w) \<and> fresh w' = Suc (fresh w) \<and>
          (\<forall>x. x \<noteq> fresh w \<longrightarrow> heap w' x = heap w x) \<and>
          in_cint (fst sz) \<and> in_cint (snd sz) \<and> 1 \<le> fst sz \<and> 1 \<le> snd sz \<and>
          img_w (heap w' (fresh w)) = fst sz \<and> img_h (heap w' (fresh w)) = snd sz \<and>
          alpha_band (heap w' (fresh w)) = alpha_band (heap w c) \<and>
          px_at (heap w' (fresh w)) = lanczos E (heap w c) (fst sz) (snd sz))"
  using assms
  by (auto simp: image_resize_def Let_def alloc_def log_call_def img_w_def img_h_def
        sint_word_of_int_cint split: if_splits)

lemma image_resize_error:
  "image_resize E c sz w = (Inl e, w') \<Longrightarrow> e = OverflowError \<or> e = LibraryValueError"
  by (auto simp: image_resize_def Let_def alloc_def split: if_splits)







lemma image_paste_frame:
  assumes "image_paste d s xy m w = (r, w')"
  shows "fresh w' = fresh w \<and> (\<forall>x. x \<noteq> d \<longrightarrow> heap w' x = heap w x) \<and>
         calls w' = calls w @ [CallPaste d s xy m]"
  using assms
  by (auto simp: image_paste_def Let_def log_call_def split: if_splits option.splits)

lemma image_paste_size:
  assumes "image_paste d s xy m w = (r, w')"
  shows "xsize (heap w' d) = xsize (heap w d) \<and> ysize (heap w' d) = ysize (heap w d) \<and>
         alpha_band (heap w' d) = alpha_band (heap w d)"
  using assms
  by (auto simp: image_paste_def Let_def log_call_def split: if_splits option.splits)


lemma image_paste_error:
  "image_paste d s xy m w = (Inl e, w') \<Longrightarrow> e = OverflowError \<or> e = LibraryValueError"
  by (auto simp: image_paste_def Let_def split: if_splits option.splits)


lemma paste_content_frame:
  assumes "paste_content k d s xy w = (r, w')"
  shows "fresh w' = fresh w \<and> (\<forall>x. x \<noteq> d \<longrightarrow> heap w' x = heap w x) \<and>
         calls w' = calls w @ [CallPaste d s xy (if k \<and> alpha_band (heap w s) then Some s else None)]"
  using assms image_paste_frame[of d s xy "Some s" w r w'] image_paste_frame[of d s xy None w r w']
  by (auto simp: paste_content_def split: if_splits)

lemma paste_content_error:
  "paste_content k d s xy w = (Inl e, w') \<Longrightarrow> e = OverflowError \<or> e = LibraryValueError"
  by (auto simp: paste_content_def split: if_splits dest: image_paste_error)


lemma draw_overlay_frame:
  assumes "draw_overlay ov ovr d w = (r, w')"
  shows "fresh w' = fresh w \<and> (\<forall>x. x \<noteq> d \<longrightarrow> heap w' x = heap w x) \<and>
         (\<exists>cs. calls w' = calls w @ cs)"
  using assms
  by (auto simp: draw_overlay_def log_call_def split: if_splits option.splits
        dest!: image_paste_frame)

lemma draw_overlay_error:
  "draw_overlay ov ovr d w = (Inl e, w') \<Longrightarrow> e = OverflowError \<or> e = LibraryValueError"
  by (auto simp: draw_overlay_def split: if_splits option.splits dest: image_paste_error)


lemma image_save_png_frame:
  assumes "image_save_png E b w = (r, w')"
  shows "fresh w' = fresh w \<and> heap w' = heap w \<and> calls w' = calls w @ [CallSave b]"
  using assms by (auto simp: image_save_png_def Let_def log_call_def split: option.splits)

lemma image_save_png_error: "image_save_png E r w = (Inl e, w') \<Longrightarrow> e = EncodeFailure"
  by (auto simp: image_save_png_def Let_def split: option.splits)


section \<open>The structure of a call\<close>

lemma paste_image_auto_success:
  assumes "paste_image_auto E a w0 = (Inr r, w')"
  obtains content base ovr region s new rsz w2 w3 w7 w8 w9 where
    "content_image a = ObjImage content"
    "prepare_base E (image_source a) w0 = (Inr base, w2)"
    "prepare_overlay E (image_overlay a) w2 = (Inr ovr, w3)"
    "paste_region (top_left a) (bottom_right a) (padding a) = Inr region"
    "fit_scale region (image_size w3 content) (allow_upscale a) = Inr s"
    "new_size (image_size w3 content) s = Inr new"
    "image_resize E content new w3 = (Inr rsz, w7)"
    "paste_content (keep_alpha a) base rsz (paste_origin a region new) w7 = (Inr (), w8)"
    "draw_overlay (image_overlay a) ovr base w8 = (Inr (), w9)"
    "image_save_png E base w9 = (Inr (png r), w')"
    "r = \<lparr>png = png r, img = base, resized = rsz,
             region_w = fst region, region_h = snd region,
             cw = fst (image_size w3 content), ch = snd (image_size w3 content), scale = s,
             new_w = fst new, new_h = snd new,
             px = fst (paste_origin a region new), py = snd (paste_origin a region new)\<rparr>"
  using assms unfolding paste_image_auto_def then_do_def raise_or_def check_content_def
  by (auto split: prod.splits sum.splits pyobj.splits)

lemma paste_image_auto_cases:
  obtains
    (type_error) "\<nexists>c. content_image a = ObjImage c"
      "paste_image_auto E a w0 = (Inl TypeMismatch, w0)"
  | (base_error) content e w2 where "content_image a = ObjImage content"
      "prepare_base E (image_source a) w0 = (Inl e, w2)"
      "paste_image_auto E a w0 = (Inl e, w2)"
  | (overlay_error) content base w2 e w3 where "content_image a = ObjImage content"
      "prepare_base E (image_source a) w0 = (Inr base, w2)"
      "prepare_overlay E (image_overlay a) w2 = (Inl e, w3)"
      "paste_image_auto E a w0 = (Inl e, w3)"
  | (geometry_error) content base w2 ovr w3 e where "content_image a = ObjImage content"
      "prepare_base E (image_source a) w0 = (Inr base, w2)"
      "prepare_overlay E (image_overlay a) w2 = (Inr ovr, w3)"
      "paste_region (top_left a) (bottom_right a) (padding a) = Inl e"
      "paste_image_auto E a w0 = (Inl e, w3)"
  | (scale_error) content base w2 ovr w3 region e where "content_image a = ObjImage content"
      "prepare_base E (image_source a) w0 = (Inr base, w2)"
      "prepare_overlay E (image_overlay a) w2 = (Inr ovr, w3)"
      "paste_region (top_left a) (bottom_right a) (padding a) = Inr region"
      "fit_scale region (image_size w3 content) (allow_upscale a) = Inl e"
      "paste_image_auto E a w0 = (Inl e, w3)"
  | (size_error) content base w2 ovr w3 region s e where "content_image a = ObjImage content"
      "prepare_base E (image_source a) w0 = (Inr base, w2)"
      "prepare_overlay E (image_overlay a) w2 = (Inr ovr, w3)"
      "paste_region (top_left a) (bottom_right a) (padding a) = Inr region"
      "fit_scale region (image_size w3 content) (allow_upscale a) = Inr s"
      "new_size (image_size w3 content) s = Inl e"
      "paste_image_auto E a w0 = (Inl e, w3)"
  | (resize_error) content base w2 ovr w3 region s new e w7 where "content_image a = ObjImage content"
      "prepare_base E (image_source a) w0 = (Inr base, w2)"
      "prepare_overlay E (image_overlay a) w2 = (Inr ovr, w3)"
      "paste_region (top_left a) (bottom_right a) (padding a) = Inr region"
      "fit_scale region (image_size w3 content) (allow_upscale a) = Inr s"
      "new_size (image_size w3 content) s = Inr new"
      "image_resize E content new w3 = (Inl e, w7)"
      "paste_image_auto E a w0 = (Inl e, w7)"
  | (paste_error) content base w2 ovr w3 region s new rsz w7 e w8 where
      "content_image a = ObjImage content"
      "prepare_base E (image_source a) w0 = (Inr base, w2)"
      "prepare_overlay E (image_overlay a) w2 = (Inr ovr, w3)"
      "paste_region (top_left a) (bottom_right a) (padding a) = Inr region"
      "fit_scale region (image_size w3 content) (allow_upscale a) = Inr s"
      "new_size (image_size w3 content) s = Inr new"
      "image_resize E content new w3 = (Inr rsz, w7)"
      "paste_content (keep_alpha a) base rsz (paste_origin a region new) w7 = (Inl e, w8)"
      "paste_image_auto E a w0 = (Inl e, w8)"
  | (draw_error) content base w2 ovr w3 region s new rsz w7 w8 e w9 where
      "content_image a = ObjImage content"
      "prepare_base E (image_source a) w0 = (Inr base, w2)"
      "prepare_overlay E (image_overlay a) w2 = (Inr ovr, w3)"
      "paste_region (top_left a) (bottom_right a) (padding a) = Inr region"
      "fit_scale region (image_size w3 content) (allow_upscale a) = Inr s"
      "new_size (image_size w3 content) s = Inr new"
      "image_resize E content new w3 = (Inr rsz, w7)"
      "paste_content (keep_alpha a) base rsz (paste_origin a region new) w7 = (Inr (), w8)"
      "draw_overlay (image_overlay a) ovr base w8 = (Inl e, w9)"
      "paste_image_auto E a w0 = (Inl e, w9)"
  | (save_error) content base w2 ovr w3 region s new rsz w7 w8 w9 e w10 where
      "content_image a = ObjImage content"
      "prepare_base E (image_source a) w0 = (Inr base, w2)"
      "prepare_overlay E (image_overlay a) w2 = (Inr ovr, w3)"
      "paste_region (top_left a) (bottom_right a) (padding a) = Inr region"
      "fit_scale region (image_size w3 content) (allow_upscale a) = Inr s"
      "new_size (image_size w3 content) s = Inr new"
      "image_resize E content new w3 = (Inr rsz, w7)"
      "paste_content (keep_alpha a) base rsz (paste_origin a region new) w7 = (Inr (), w8)"
      "draw_overlay (image_overlay a) ovr base w8 = (Inr (), w9)"
      "image_save_png E base w9 = (Inl e, w10)"
      "paste_image_auto E a w0 = (Inl e, w10)"
  | (success) content base w2 ovr w3 region s new rsz w7 w8 w9 bytes w10 where
      "content_image a = ObjImage content"
      "prepare_base E (image_source a) w0 = (Inr base, w2)"
      "prepare_overlay E (image_overlay a) w2 = (Inr ovr, w3)"
      "paste_region (top_left a) (bottom_right a) (padding a) = Inr region"
      "fit_scale region (image_size w3 content) (allow_upscale a) = Inr s"
      "new_size (image_size w3 content) s = Inr new"
      "image_resize E content new w3 = (Inr rsz, w7)"
      "paste_content (keep_alpha a) base rsz (paste_origin a region new) w7 = (Inr (), w8)"
      "draw_overlay (image_overlay a) ovr base w8 = (Inr (), w9)"
      "image_save_png E base w9 = (Inr bytes, w10)"
      "paste_image_auto E a w0 =
         (Inr \<lparr>png = bytes, img = base, resized = rsz,
               region_w = fst region, region_h = snd region,
               cw = fst (image_size w3 content), ch = snd (image_size w3 content), scale = s,
               new_w = fst new, new_h = snd new,
               px = fst (paste_origin a region new), py = snd (paste_origin a region new)\<rparr>, w10)"
proof (cases "content_image a")
  case (ObjImage content)
  note c = this
  obtain r1 w2 where s2: "prepare_base E (image_source a) w0 = (r1, w2)" by (cases "prepare_base E (image_source a) w0")
  show ?thesis
  proof (cases r1)
    case (Inl e)
    then show ?thesis using base_error[of content e w2] c s2
      by (simp add: paste_image_auto_def check_content_def raise_or_def)
  next
    case (Inr base)
    note s2 = s2[unfolded Inr]
    obtain r2 w3 where s3: "prepare_overlay E (image_overlay a) w2 = (r2, w3)" by (cases "prepare_overlay E (image_overlay a) w2")
    show ?thesis
    proof (cases r2)
      case (Inl e)
      then show ?thesis using overlay_error[of content base w2 e w3] c s2 s3
        by (simp add: paste_image_auto_def check_content_def raise_or_def)
    next
      case (Inr ovr)
      note s3 = s3[unfolded Inr]
      show ?thesis
      proof (cases "paste_region (top_left a) (bottom_right a) (padding a)")
        case (Inl e)
        then show ?thesis using geometry_error[of content base w2 ovr w3 e] c s2 s3
          by (simp add: paste_image_auto_def check_content_def raise_or_def)
      next
        case (Inr region)
        note s4 = this
        show ?thesis
        proof (cases "fit_scale region (image_size w3 content) (allow_upscale a)")
          case (Inl e)
          then show ?thesis using scale_error[of content base w2 ovr w3 region e] c s2 s3 s4
            by (simp add: paste_image_auto_def check_content_def raise_or_def)
        next
          case (Inr s)
          note s5 = this
          show ?thesis
          proof (cases "new_size (image_size w3 content) s")
            case (Inl e)
            then show ?thesis using size_error[of content base w2 ovr w3 region s e] c s2 s3 s4 s5
              by (simp add: paste_image_auto_def check_content_def raise_or_def)
          next
            case (Inr new)
            note s6 = this
            obtain r7 w7 where s7: "image_resize E content new w3 = (r7, w7)" by (cases "image_resize E content new w3")
            show ?thesis
            proof (cases r7)
              case (Inl e)
              then show ?thesis using resize_error[of content base w2 ovr w3 region s new e w7] c s2 s3 s4 s5 s6 s7
                by (simp add: paste_image_auto_def check_content_def raise_or_def)
            next
              case (Inr rsz)
              note s7 = s7[unfolded Inr]
              obtain r8 w8 where s8: "paste_content (keep_alpha a) base rsz (paste_origin a region new) w7 = (r8, w8)"
                by (cases "paste_content (keep_alpha a) base rsz (paste_origin a region new) w7")
              show ?thesis
              proof (cases r8)
                case (Inl e)
                then show ?thesis using paste_error[of content base w2 ovr w3 region s new rsz w7 e w8] c s2 s3 s4 s5 s6 s7 s8
                  by (simp add: paste_image_auto_def check_content_def raise_or_def)
              next
                case (Inr u8)
                note s8 = s8[unfolded Inr]
                obtain r9 w9 where s9: "draw_overlay (image_overlay a) ovr base w8 = (r9, w9)"
                  by (cases "draw_overlay (image_overlay a) ovr base w8")
                show ?thesis
                proof (cases r9)
                  case (Inl e)
                  then show ?thesis using draw_error[of content base w2 ovr w3 region s new rsz w7 w8 e w9] c s2 s3 s4 s5 s6 s7 s8 s9
                    by (simp add: paste_image_auto_def check_content_def raise_or_def)
                next
                  case (Inr u9)
                  note s9 = s9[unfolded Inr]
                  obtain r10 w10 where s10: "image_save_png E base w9 = (r10, w10)"
                    by (cases "image_save_png E base w9")
                  show ?thesis
                  proof (cases r10)
                    case (Inl e)
                    then show ?thesis using save_error[of content base w2 ovr w3 region s new rsz w7 w8 w9 e w10] c s2 s3 s4 s5 s6 s7 s8 s9 s10
                      by (simp add: paste_image_auto_def check_content_def raise_or_def)
                  next
                    case (Inr bytes)
                    then show ?thesis using success[of content base w2 ovr w3 region s new rsz w7 w8 w9 bytes w10] c s2 s3 s4 s5 s6 s7 s8 s9 s10
                      by (simp add: paste_image_auto_def check_content_def raise_or_def)
                  qed
                qed
              qed
            qed
          qed
        qed
      qed
    qed
  qed
next
  case (ObjStr x)
  then show ?thesis using type_error by (simp add: paste_image_auto_def check_content_def raise_or_def)
next
  case ObjNone
  then show ?thesis using type_error by (simp add: paste_image_auto_def check_content_def raise_or_def)
qed

text \<open>What a successful call has done to the store and the call log.\<close>

lemma success_store:
  assumes "paste_image_auto E a w0 = (Inr r, w')"
  shows "img r = fresh w0 \<and> img r < resized r \<and> resized r < fresh w' \<and>
         (\<forall>x. x < fresh w0 \<longrightarrow> heap w' x = heap w0 x) \<and>
         image_size w' (resized r) = (new_w r, new_h r) \<and>
         in_cint (new_w r) \<and> in_cint (new_h r) \<and> 1 \<le> new_w r \<and> 1 \<le> new_h r \<and>
         (\<exists>m. CallPaste (img r) (resized r) (px r, py r) m \<in> set (calls w'))"
proof -
  obtain content base ovr region s new rsz w2 w3 w7 w8 w9 where st:
    "content_image a = ObjImage content"
    "prepare_base E (image_source a) w0 = (Inr base, w2)"
    "prepare_overlay E (image_overlay a) w2 = (Inr ovr, w3)"
    "paste_region (top_left a) (bottom_right a) (padding a) = Inr region"
    "fit_scale region (image_size w3 content) (allow_upscale a) = Inr s"
    "new_size (image_size w3 content) s = Inr new"
    "image_resize E content new w3 = (Inr rsz, w7)"
    "paste_content (keep_alpha a) base rsz (paste_origin a region new) w7 = (Inr (), w8)"
    "draw_overlay (image_overlay a) ovr base w8 = (Inr (), w9)"
    "image_save_png E base w9 = (Inr (png r), w')"
    "r = \<lparr>png = png r, img = base, resized = rsz,
             region_w = fst region, region_h = snd region,
             cw = fst (image_size w3 content), ch = snd (image_size w3 content), scale = s,
             new_w = fst new, new_h = snd new,
             px = fst (paste_origin a region new), py = snd (paste_origin a region new)\<rparr>"
    using assms by (rule paste_image_auto_success)
  have r: "img r = base" "resized r = rsz" "new_w r = fst new" "new_h r = snd new"
    "px r = fst (paste_origin a region new)" "py r = snd (paste_origin a region new)"
    by (subst st(11), simp)+
  from prepare_base_cases[OF st(2)]
  have b: "base = fresh w0" "fresh w2 = Suc (fresh w0)" "\<forall>x. x \<noteq> fresh w0 \<longrightarrow> heap w2 x = heap w0 x"
    by auto
  from prepare_overlay_cases[OF st(3)]
  have o: "fresh w2 \<le> fresh w3" "\<forall>x. x < fresh w2 \<longrightarrow> heap w3 x = heap w2 x"
    by auto
  from image_resize_cases[OF st(7)]
  have z: "rsz = fresh w3" "fresh w7 = Suc (fresh w3)" "\<forall>x. x \<noteq> fresh w3 \<longrightarrow> heap w7 x = heap w3 x"
    "in_cint (fst new)" "in_cint (snd new)" "1 \<le> fst new" "1 \<le> snd new"
    "img_w (heap w7 rsz) = fst new" "img_h (heap w7 rsz) = snd new"
    by auto
  from paste_content_frame[OF st(8)]
  have p: "fresh w8 = fresh w7" "\<forall>x. x \<noteq> base \<longrightarrow> heap w8 x = heap w7 x"
    "\<exists>m. calls w8 = calls w7 @ [CallPaste base rsz (paste_origin a region new) m]"
    by auto
  from draw_overlay_frame[OF st(9)]
  have d: "fresh w9 = fresh w8" "\<forall>x. x \<noteq> base \<longrightarrow> heap w9 x = heap w8 x"
    "\<exists>cs. calls w9 = calls w8 @ cs"
    by auto
  from image_save_png_frame[OF st(10)]
  have v: "fresh w' = fresh w9" "heap w' = heap w9" "calls w' = calls w9 @ [CallSave base]"
    by auto
  have lt: "base < rsz" using b o z by simp
  have "heap w' rsz = heap w7 rsz" using v d p lt by simp
  then have sz: "image_size w' rsz = new" using z by (simp add: image_size_def)
  have fr: "heap w' x = heap w0 x" if "x < fresh w0" for x
    using that v d p z o b by simp
  have cp: "\<exists>m. CallPaste base rsz (paste_origin a region new) m \<in> set (calls w')"
    using p(3) d(3) v(3) by auto
  show ?thesis using b lt z v d p sz fr cp unfolding r by auto
qed

text \<open>The numbers of a successful call.\<close>

lemma success_geometry:
  assumes "paste_image_auto E a w0 = (Inr r, w')"
  obtains sw sh where
    "1 \<le> cw r" "cw r < 2147483648" "1 \<le> ch r" "ch r < 2147483648"
    "region_w r = max 1 (fst (bottom_right a) - fst (top_left a) - 2 * padding a)"
    "region_h r = max 1 (snd (bottom_right a) - snd (top_left a) - 2 * padding a)"
    "py_truediv (region_w r) (cw r) = Inr sw" "py_truediv (region_h r) (ch r) = Inr sh"
    "scale r = (if allow_upscale a then min sw sh else min 1 (min sw sh))"
    "new_dim (cw r) (scale r) = Inr (new_w r)" "new_dim (ch r) (scale r) = Inr (new_h r)"
    "in_cint (new_w r)" "in_cint (new_h r)"
    "\<forall>c. content_image a = ObjImage c \<and> c < fresh w0 \<longrightarrow> (cw r, ch r) = image_size w0 c"
proof -
  obtain content base ovr region s new rsz w2 w3 w7 w8 w9 where st:
    "content_image a = ObjImage content"
    "prepare_base E (image_source a) w0 = (Inr base, w2)"
    "prepare_overlay E (image_overlay a) w2 = (Inr ovr, w3)"
    "paste_region (top_left a) (bottom_right a) (padding a) = Inr region"
    "fit_scale region (image_size w3 content) (allow_upscale a) = Inr s"
    "new_size (image_size w3 content) s = Inr new"
    "image_resize E content new w3 = (Inr rsz, w7)"
    "paste_content (keep_alpha a) base rsz (paste_origin a region new) w7 = (Inr (), w8)"
    "draw_overlay (image_overlay a) ovr base w8 = (Inr (), w9)"
    "image_save_png E base w9 = (Inr (png r), w')"
    "r = \<lparr>png = png r, img = base, resized = rsz,
             region_w = fst region, region_h = snd region,
             cw = fst (image_size w3 content), ch = snd (image_size w3 content), scale = s,
             new_w = fst new, new_h = snd new,
             px = fst (paste_origin a region new), py = snd (paste_origin a region new)\<rparr>"
    using assms by (rule paste_image_auto_success)
  have r: "region_w r = fst region" "region_h r = snd region" "new_w r = fst new" "new_h r = snd new"
    "cw r = fst (image_size w3 content)" "ch r = snd (image_size w3 content)" "scale r = s"
    by (subst st(11), simp)+
  have rg: "fst region = max 1 (fst (bottom_right a) - fst (top_left a) - 2 * padding a)"
    "snd region = max 1 (snd (bottom_right a) - snd (top_left a) - 2 * padding a)"
    using st(4) by (auto simp: paste_region_cases split: if_splits)
  obtain sw sh where sc: "1 \<le> fst (image_size w3 content)" "1 \<le> snd (image_size w3 content)"
    "py_truediv (fst region) (fst (image_size w3 content)) = Inr sw"
    "py_truediv (snd region) (snd (image_size w3 content)) = Inr sh"
    "s = (if allow_upscale a then min sw sh else min 1 (min sw sh))"
    using st(5) by (rule fit_scale_success)
  have up: "fst (image_size w3 content) < 2147483648" "snd (image_size w3 content) < 2147483648"
    using img_w_range(2)[of "heap w3 content"] img_h_range(2)[of "heap w3 content"]
    by (simp_all add: image_size_def)
  note nd = new_size_success[OF st(6)]
  from image_resize_cases[OF st(7)] have ci: "in_cint (fst new)" "in_cint (snd new)" by auto
  have same: "(cw r, ch r) = image_size w0 c" if "content_image a = ObjImage c" "c < fresh w0" for c
  proof -
    have "c = content" using that(1) st(1) by simp
    moreover have "heap w2 c = heap w0 c" using prepare_base_cases[OF st(2)] that(2) by auto
    moreover have "heap w3 c = heap w2 c"
      using prepare_base_cases[OF st(2)] prepare_overlay_cases[OF st(3)] that(2) by auto
    ultimately show ?thesis unfolding r by (simp add: image_size_def)
  qed
  show ?thesis
    using that[of sw sh] sc up rg nd ci same unfolding r by blast
qed

section \<open>Calls that differ in diagnostics only\<close>

lemma sim_refl: "sim p m m"
  by (simp add: sim_def same_but_diagnostics_def)

lemma then_do_sim:
  assumes "sim p m m'"
    and "\<And>x w v. same_but_diagnostics p w v \<Longrightarrow> sim p (f x w) (g x v)"
  shows "sim p (then_do m f) (then_do m' g)"
proof (cases m)
  case (Pair r w)
  obtain r' v where m': "m' = (r', v)" by (cases m')
  have e: "r = r'" "same_but_diagnostics p w v" using assms(1) Pair m' by (simp_all add: sim_def)
  show ?thesis
  proof (cases r)
    case (Inl err)
    then show ?thesis using e Pair m' by (simp add: sim_def)
  next
    case (Inr x)
    then show ?thesis using e Pair m' assms(2)[OF e(2), of x] by simp
  qed
qed

lemma raise_or_sim: "same_but_diagnostics p w v \<Longrightarrow> sim p (raise_or r w) (raise_or r v)"
  by (simp add: sim_def raise_or_def)

lemma image_size_sim: "same_but_diagnostics p w v \<Longrightarrow> image_size w c = image_size v c"
  by (simp add: same_but_diagnostics_def image_size_def)

lemma image_resize_sim:
  "same_but_diagnostics p w v \<Longrightarrow> sim p (image_resize E c sz w) (image_resize E c sz v)"
  by (simp add: sim_def same_but_diagnostics_def image_resize_def Let_def alloc_def log_call_def)

lemma image_paste_sim:
  "same_but_diagnostics p w v \<Longrightarrow> sim p (image_paste d s xy m w) (image_paste d s xy m v)"
  by (simp add: sim_def same_but_diagnostics_def image_paste_def Let_def log_call_def
        diagnostic_call_def split: option.splits)

lemma paste_content_sim:
  "same_but_diagnostics p w v \<Longrightarrow> sim p (paste_content k d s xy w) (paste_content k d s xy v)"
  using image_paste_sim[of p w v] by (simp add: paste_content_def same_but_diagnostics_def)

lemma draw_overlay_sim:
  "same_but_diagnostics p w v \<Longrightarrow> sim p (draw_overlay (OvPath p) None d w) (draw_overlay OvNone None d v)"
  by (simp add: sim_def same_but_diagnostics_def draw_overlay_def log_call_def diagnostic_call_def)

lemma image_save_png_sim:
  assumes "same_but_diagnostics p w v" and "\<And>bytes. F bytes = G bytes"
  shows "sim p (then_do (image_save_png E b w) (\<lambda>bytes w10. (Inr (F bytes), w10)))
               (then_do (image_save_png E b v) (\<lambda>bytes w10. (Inr (G bytes), w10)))"
  using assms
  by (simp add: sim_def same_but_diagnostics_def image_save_png_def Let_def log_call_def
        diagnostic_call_def split: option.splits)

lemma log_isfile_sim:
  "same_but_diagnostics p w v \<Longrightarrow> same_but_diagnostics p (log_call (CallIsFile p) w) v"
  by (simp add: same_but_diagnostics_def log_call_def diagnostic_call_def)

lemma missing_overlay_sim:
  assumes "\<not> isfile E p"
  shows "sim p (paste_image_auto E (a\<lparr>image_overlay := OvPath p\<rparr>) w0)
               (paste_image_auto E (a\<lparr>image_overlay := OvNone\<rparr>) w0)"
  unfolding paste_image_auto_def
  apply (rule then_do_sim)
  subgoal by (simp add: sim_refl)
  apply (rule then_do_sim)
  subgoal by (simp add: sim_def same_but_diagnostics_def prepare_base_def image_copy_def alloc_def
      log_call_def image_open_rgba_def Let_def split: source.splits option.splits)
  apply (simp add: prepare_overlay_missing[OF assms] prepare_overlay_none paste_origin_def)
  apply (rule then_do_sim)
  subgoal by (simp add: raise_or_sim log_isfile_sim)
  apply (rule then_do_sim)
  subgoal by (simp add: raise_or_def sim_def image_size_sim[of p])
  apply (rule then_do_sim)
  subgoal by (simp add: raise_or_def sim_def image_size_sim[of p])
  apply (rule then_do_sim)
  subgoal by (simp add: image_resize_sim)
  apply (rule then_do_sim)
  subgoal by (simp add: paste_content_sim)
  apply (rule then_do_sim)
  subgoal by (simp add: draw_overlay_sim)
  apply (rule image_save_png_sim)
   apply assumption
  apply (simp add: same_but_diagnostics_def image_size_def)
  done

section \<open>The concrete calls, evaluated\<close>

lemma div_2_3: "py_truediv 2 3 = Inr s23"
proof -
  have "fl_round (2 / 3) = Some (of_int 6004799503160661 * 2 powi (- 1 - 52))"
  proof (rule fl_round_eqI)
    show "round_half_even (2 / 3 / 2 powi (- 1 - 52)) = 6004799503160661"
      by (rule rhe_eqI) simp_all
  qed simp_all
  then show ?thesis by (simp add: py_truediv_def s23_def)
qed

lemma div_2_2: "py_truediv 2 2 = Inr 1"
  using fl_round_of_int[of 1] by (simp add: py_truediv_def)

lemma dim_3: "new_dim 3 s23 = Inr 2"
proof -
  have a: "fl_round (of_int 3) = Some (of_int 3)" by (rule fl_round_of_int) simp_all
  have "fl_round (3 * s23) = Some (of_int 9007199254740992 * 2 powi (0 - 52))"
  proof (rule fl_round_eqI)
    show "round_half_even (3 * s23 / 2 powi (0 - 52)) = 9007199254740992"
      using rhe_tie[of 9007199254740991] by (simp add: s23_def)
  qed (simp_all add: s23_def)
  then have b: "fl_round (3 * s23) = Some 2" by simp
  show ?thesis using a b by (simp add: new_dim_def py_int_times_float_def py_round_def)
qed

lemma dim_2: "new_dim 2 s23 = Inr 1"
proof -
  have a: "fl_round (of_int 2) = Some (of_int 2)" by (rule fl_round_of_int) simp_all
  have "fl_round (2 * s23) = Some (of_int 6004799503160661 * 2 powi (0 - 52))"
  proof (rule fl_round_eqI)
    show "round_half_even (2 * s23 / 2 powi (0 - 52)) = 6004799503160661"
      by (simp add: s23_def)
  qed (simp_all add: s23_def)
  then have b: "fl_round (2 * s23) = Some (2 * s23)" by (simp add: s23_def)
  have "round_half_even (2 * s23) = 1" by (rule rhe_eqI) (simp_all add: s23_def)
  then show ?thesis using a b by (simp add: new_dim_def py_int_times_float_def py_round_def)
qed

text \<open>A tie: \<open>round(5 * 0.5)\<close> is 2, the even neighbour of 2.5.\<close>

lemma dim_tie: "new_dim 5 (1 / 2) = Inr 2"
proof -
  have a: "fl_round (of_int 5) = Some (of_int 5)" by (rule fl_round_of_int) simp_all
  have "(of_int 5 :: rat) * 2 powi (- 1) < 2 powi 1024"
    using powi2_less_iff[of 3 1024] by (simp add: power_int_minus)
  then have "fl_round (of_int 5 * 2 powi (- 1)) = Some (of_int 5 * 2 powi (- 1))"
    by (intro fl_round_exact) simp_all
  then have b: "fl_round (5 * (1 / 2)) = Some (5 / 2)" by (simp add: power_int_minus)
  have "round_half_even (of_int 2 + 1 / 2) = 2" unfolding rhe_tie by simp
  then have "round_half_even (5 / 2) = 2" by simp
  then show ?thesis using a b by (simp add: new_dim_def py_int_times_float_def py_round_def)
qed

lemma ex_scale: "fit_scale (2, 2) (3, 2) False = Inr s23"
  by (simp add: fit_scale_def div_2_3 div_2_2 Let_def s23_def)

lemma ex_new: "new_size (3, 2) s23 = Inr (2, 1)"
  by (simp add: new_size_def dim_3 dim_2)

lemma div_5_3: "py_truediv 5 3 = Inr (7505999378950827 / 4503599627370496)"
proof -
  have "fl_round (5 / 3) = Some (of_int 7505999378950827 * 2 powi (0 - 52))"
  proof (rule fl_round_eqI)
    show "round_half_even (5 / 3 / 2 powi (0 - 52)) = 7505999378950827"
      by (rule rhe_eqI) simp_all
  qed simp_all
  then show ?thesis by (simp add: py_truediv_def)
qed

lemma div_5_2: "py_truediv 5 2 = Inr (5 / 2)"
proof -
  have "fl_round (of_int 5 * 2 powi (- 1)) = Some (of_int 5 * 2 powi (- 1))"
    by (rule fl_round_exact) simp_all
  then show ?thesis by (simp add: py_truediv_def)
qed

lemma ex_scale5: "fit_scale (5, 5) (3, 2) False = Inr 1"
  by (simp add: fit_scale_def div_5_3 div_5_2 Let_def)

lemma ex_new5: "new_size (3, 2) 1 = Inr (3, 2)"
  using new_dim_one[of 3] new_dim_one[of 2] by (simp add: new_size_def)

lemma div_4_4: "py_truediv 4 4 = Inr 1"
  using fl_round_of_int[of 1] by (simp add: py_truediv_def)

lemma times_4: "py_int_times_float 4 s23 = Inr (Finite (4 * s23))"
proof -
  have a: "fl_round (of_int 4) = Some (of_int 4)" by (rule fl_round_of_int) simp_all
  have "fl_round (of_int 6004799503160661 * 2 powi (- 51)) = Some (of_int 6004799503160661 * 2 powi (- 51))"
    by (rule fl_round_exact) simp_all
  then have b: "fl_round (4 * s23) = Some (4 * s23)" by (simp add: s23_def)
  show ?thesis using a b by (simp add: py_int_times_float_def)
qed

lemma round_4: "round_half_even (4 * s23) = 3"
  by (rule rhe_eqI) (simp_all add: s23_def)

lemma floor_4: "\<lfloor>4 * s23\<rfloor> = 2"
  by (rule floor_unique) (simp_all add: s23_def)

lemma dim_4: "new_dim 4 s23 = Inr 3"
  by (simp add: new_dim_def times_4 py_round_def round_4)

lemma ex_scale_tall: "fit_scale (2, 4) (3, 4) False = Inr s23"
  by (simp add: fit_scale_def div_2_3 div_4_4 Let_def s23_def)

lemma ex_new_tall: "new_size (3, 4) s23 = Inr (2, 3)"
  by (simp add: new_size_def dim_3 dim_4)

lemmas step_defs = paste_image_auto_def then_do_def raise_or_def check_content_def prepare_base_def
  prepare_overlay_def paste_region_def image_size_def image_copy_def alloc_def log_call_def
  image_resize_def in_cint_def paste_origin_def paste_x_def paste_y_def paste_content_def
  image_paste_def draw_overlay_def image_save_png_def img_w_def img_h_def

lemmas ex_defs = ex_env_def ex_args_def ex_world_def ex_canvas_def ex_content_def ex_empty_def

lemmas eval_defs = step_defs Let_def in_box_def on_canvas_def as_mode_of_def blend_pixel_def alpha_of_def
  blend8_def ex_scale ex_new

lemma ex_run: "fst (paste_image_auto ex_env ex_args ex_world) = Inr ex_out"
  by (simp add: eval_defs ex_defs ex_out_def)

lemma ex_run_br:
  "fst (paste_image_auto ex_env (ex_args\<lparr>align := ARight, valign := VBottom\<rparr>) ex_world)
     = Inr (ex_out\<lparr>png := [10, 10, 255, 255], py := 1\<rparr>)"
  by (simp add: eval_defs ex_defs ex_out_def)

lemma ex_run_mid:
  "fst (paste_image_auto ex_env (ex_args\<lparr>align := ACenter, valign := VMiddle\<rparr>) ex_world)
     = Inr ex_out"
  by (simp add: eval_defs ex_defs ex_out_def)

lemma ex_run5:
  "fst (paste_image_auto ex_env (ex_args\<lparr>bottom_right := (5, 5)\<rparr>) ex_world)
     = Inr (ex_out\<lparr>region_w := 5, region_h := 5, scale := 1, new_w := 3, new_h := 2\<rparr>)"
  by (simp add: eval_defs ex_defs ex_out_def ex_scale5 ex_new5)

lemma ex_run_tall:
  "fst (paste_image_auto ex_env (ex_args\<lparr>bottom_right := (2, 4)\<rparr>)
          (ex_world\<lparr>heap := (heap ex_world)(1 := ex_tall)\<rparr>))
     = Inr (ex_out\<lparr>png := [10, 10, 7, 7], region_h := 4, ch := 4, new_h := 3\<rparr>)"
  by (simp add: eval_defs ex_defs ex_out_def ex_tall_def ex_scale_tall ex_new_tall)

lemma run_pair: "fst (f x) = Inr r \<Longrightarrow> f x = (Inr r, snd (f x))"
  by (simp add: prod_eq_iff)

section \<open>The claims\<close>

text \<open>
  Claim C1 (contain invariant). On every successful call the placed width and height are
  at most the inner width and height, where the inner size is the region less twice the
  padding, floored at 1. One of the two is reached, unless upscaling is off and the content
  is strictly smaller than the inner region in both directions; then the scale is clamped
  to 1 and the content keeps its size.
\<close>

theorem contain_invariant:
  assumes "paste_image_auto E a w0 = (Inr r, w')"
  shows "region_w r = max 1 (fst (bottom_right a) - fst (top_left a) - 2 * padding a)
       \<and> region_h r = max 1 (snd (bottom_right a) - snd (top_left a) - 2 * padding a)
       \<and> new_w r \<le> region_w r \<and> new_h r \<le> region_h r
       \<and> (allow_upscale a \<or> \<not> (cw r < region_w r \<and> ch r < region_h r) \<longrightarrow>
            new_w r = region_w r \<or> new_h r = region_h r)
       \<and> (\<not> allow_upscale a \<and> cw r < region_w r \<and> ch r < region_h r \<longrightarrow>
            scale r = 1 \<and> new_w r = cw r \<and> new_h r = ch r)"
proof -
  obtain sw sh where g:
    "1 \<le> cw r" "cw r < 2147483648" "1 \<le> ch r" "ch r < 2147483648"
    "region_w r = max 1 (fst (bottom_right a) - fst (top_left a) - 2 * padding a)"
    "region_h r = max 1 (snd (bottom_right a) - snd (top_left a) - 2 * padding a)"
    "py_truediv (region_w r) (cw r) = Inr sw" "py_truediv (region_h r) (ch r) = Inr sh"
    "scale r = (if allow_upscale a then min sw sh else min 1 (min sw sh))"
    "new_dim (cw r) (scale r) = Inr (new_w r)" "new_dim (ch r) (scale r) = Inr (new_h r)"
    "in_cint (new_w r)" "in_cint (new_h r)"
    "\<forall>c. content_image a = ObjImage c \<and> c < fresh w0 \<longrightarrow> (cw r, ch r) = image_size w0 c"
    using assms(1) by (rule success_geometry)
  have rw: "1 \<le> region_w r" and rh: "1 \<le> region_h r" unfolding g(5,6) by simp_all
  note bw = py_truediv_bounds[OF g(1,2) rw g(7)]
  note bh = py_truediv_bounds[OF g(3,4) rh g(8)]
  have s_lo: "1 / 2 ^ 32 \<le> scale r" unfolding g(9) using bw(3) bh(3) by (simp add: min_def)
  have s_w: "scale r \<le> sw" and s_h: "scale r \<le> sh" unfolding g(9) by (simp_all add: min_def)
  have le_w: "new_w r \<le> region_w r"
  proof (cases "region_w r < 2147483648")
    case True
    show ?thesis using g(1,2) rw True g(7) s_lo s_w g(10) by (rule placed_le_inner)
  next
    case False
    then show ?thesis using g(12) by (simp add: in_cint_def)
  qed
  have le_h: "new_h r \<le> region_h r"
  proof (cases "region_h r < 2147483648")
    case True
    show ?thesis using g(3,4) rh True g(8) s_lo s_h g(11) by (rule placed_le_inner)
  next
    case False
    then show ?thesis using g(13) by (simp add: in_cint_def)
  qed
  have eq: "new_w r = region_w r \<or> new_h r = region_h r"
    if c: "allow_upscale a \<or> \<not> (cw r < region_w r \<and> ch r < region_h r)"
  proof -
    have "scale r = min sw sh"
    proof (cases "allow_upscale a")
      case True
      then show ?thesis using g(9) by simp
    next
      case False
      then have "region_w r \<le> cw r \<or> region_h r \<le> ch r" using c by auto
      then have "sw \<le> 1 \<or> sh \<le> 1"
        using py_truediv_le_one[OF g(1) rw _ g(7)] py_truediv_le_one[OF g(3) rh _ g(8)] by blast
      then show ?thesis using g(9) by (auto simp: min_def)
    qed
    then have "scale r = sw \<or> scale r = sh" by (simp add: min_def)
    then show ?thesis
    proof
      assume "scale r = sw"
      then have "min (region_w r) 2147483648 \<le> new_w r"
        using placed_ge_inner[OF g(1,2) rw g(7)] g(10) by simp
      then have "region_w r \<le> new_w r" using g(12) by (simp add: in_cint_def min_def split: if_splits)
      then show ?thesis using le_w by simp
    next
      assume "scale r = sh"
      then have "min (region_h r) 2147483648 \<le> new_h r"
        using placed_ge_inner[OF g(3,4) rh g(8)] g(11) by simp
      then have "region_h r \<le> new_h r" using g(13) by (simp add: in_cint_def min_def split: if_splits)
      then show ?thesis using le_h by simp
    qed
  qed
  have ex: "scale r = 1 \<and> new_w r = cw r \<and> new_h r = ch r"
    if c: "\<not> allow_upscale a \<and> cw r < region_w r \<and> ch r < region_h r"
  proof -
    have "1 \<le> sw" using g(1) _ g(7) by (rule py_truediv_ge_one) (use c in simp)
    moreover have "1 \<le> sh" using g(3) _ g(8) by (rule py_truediv_ge_one) (use c in simp)
    ultimately have s: "scale r = 1" using g(9) c by simp
    have "new_w r = cw r" using g(10) new_dim_one[OF g(1,2)] unfolding s by simp
    moreover have "new_h r = ch r" using g(11) new_dim_one[OF g(3,4)] unfolding s by simp
    ultimately show ?thesis using s by simp
  qed
  show ?thesis using g(5,6) le_w le_h eq ex by blast
qed

theorem contain_invariant_witness:
  "(\<exists>r w'. paste_image_auto ex_env ex_args ex_world = (Inr r, w')
       \<and> \<not> (cw r < region_w r \<and> ch r < region_h r)
       \<and> region_w r = 2 \<and> region_h r = 2 \<and> new_w r = 2 \<and> new_h r = 1
       \<and> new_w r \<le> region_w r \<and> new_h r \<le> region_h r \<and> new_w r = region_w r)
 \<and> (\<exists>r w'. paste_image_auto ex_env (ex_args\<lparr>bottom_right := (5, 5)\<rparr>) ex_world = (Inr r, w')
       \<and> \<not> allow_upscale (ex_args\<lparr>bottom_right := (5, 5)\<rparr>)
       \<and> cw r < region_w r \<and> ch r < region_h r
       \<and> scale r = 1 \<and> new_w r = cw r \<and> new_h r = ch r \<and> new_w r < region_w r \<and> new_h r < region_h r)"
proof -
  note r1 = run_pair[of "paste_image_auto ex_env ex_args" ex_world, OF ex_run]
  note r5 = run_pair[of "paste_image_auto ex_env (ex_args\<lparr>bottom_right := (5, 5)\<rparr>)" ex_world, OF ex_run5]
  have a: "\<not> allow_upscale (ex_args\<lparr>bottom_right := (5, 5)\<rparr>)" by (simp add: ex_args_def)
  from contain_invariant[OF r1]
  have 1: "\<exists>r w'. paste_image_auto ex_env ex_args ex_world = (Inr r, w')
       \<and> \<not> (cw r < region_w r \<and> ch r < region_h r)
       \<and> region_w r = 2 \<and> region_h r = 2 \<and> new_w r = 2 \<and> new_h r = 1
       \<and> new_w r \<le> region_w r \<and> new_h r \<le> region_h r \<and> new_w r = region_w r"
    using r1 by (intro exI[of _ ex_out] exI[of _ "snd (paste_image_auto ex_env ex_args ex_world)"])
      (simp add: ex_out_def)
  from contain_invariant[OF r5]
  have 2: "\<exists>r w'. paste_image_auto ex_env (ex_args\<lparr>bottom_right := (5, 5)\<rparr>) ex_world = (Inr r, w')
       \<and> \<not> allow_upscale (ex_args\<lparr>bottom_right := (5, 5)\<rparr>)
       \<and> cw r < region_w r \<and> ch r < region_h r
       \<and> scale r = 1 \<and> new_w r = cw r \<and> new_h r = ch r \<and> new_w r < region_w r \<and> new_h r < region_h r"
    using r5 a by (intro exI[of _ "ex_out\<lparr>region_w := 5, region_h := 5, scale := 1, new_w := 3, new_h := 2\<rparr>"]
        exI[of _ "snd (paste_image_auto ex_env (ex_args\<lparr>bottom_right := (5, 5)\<rparr>) ex_world)"])
      (simp add: ex_out_def)
  show ?thesis using 1 2 by blast
qed


text \<open>
  Claim C2 (scale and size computation). On every successful call the two ratios are the
  float quotients of the inner and the content dimensions (each within a relative error of
  \<open>2 ^ -53\<close> of the exact quotient), the scale is their minimum, clamped to at most 1 when
  upscaling is off, and each placed dimension is \<open>max 1 (round p)\<close> for the float product
  \<open>p\<close> of the content dimension and the scale, where \<open>round\<close> yields an integer nearest to
  \<open>p\<close> (the even one at a tie), not its integer part.
\<close>

theorem scale_and_size:
  assumes "paste_image_auto E a w0 = (Inr r, w')"
  shows "\<exists>ratio_w ratio_h prod_w prod_h.
        region_w r = max 1 (fst (bottom_right a) - fst (top_left a) - 2 * padding a)
      \<and> region_h r = max 1 (snd (bottom_right a) - snd (top_left a) - 2 * padding a)
      \<and> py_truediv (region_w r) (cw r) = Inr ratio_w
      \<and> py_truediv (region_h r) (ch r) = Inr ratio_h
      \<and> \<bar>ratio_w - of_int (region_w r) / of_int (cw r)\<bar>
           \<le> of_int (region_w r) / of_int (cw r) / 2 ^ 53
      \<and> \<bar>ratio_h - of_int (region_h r) / of_int (ch r)\<bar>
           \<le> of_int (region_h r) / of_int (ch r) / 2 ^ 53
      \<and> scale r = (if allow_upscale a then min ratio_w ratio_h else min 1 (min ratio_w ratio_h))
      \<and> (\<not> allow_upscale a \<longrightarrow> scale r \<le> 1)
      \<and> py_int_times_float (cw r) (scale r) = Inr (Finite prod_w)
      \<and> py_int_times_float (ch r) (scale r) = Inr (Finite prod_h)
      \<and> \<bar>prod_w - of_int (cw r) * scale r\<bar> \<le> of_int (cw r) * scale r / 2 ^ 53
      \<and> \<bar>prod_h - of_int (ch r) * scale r\<bar> \<le> of_int (ch r) * scale r / 2 ^ 53
      \<and> new_w r = max 1 (round_half_even prod_w)
      \<and> new_h r = max 1 (round_half_even prod_h)
      \<and> \<bar>of_int (round_half_even prod_w) - prod_w\<bar> \<le> 1 / 2
      \<and> \<bar>of_int (round_half_even prod_h) - prod_h\<bar> \<le> 1 / 2
      \<and> (\<bar>of_int (round_half_even prod_w) - prod_w\<bar> = 1 / 2 \<longrightarrow> even (round_half_even prod_w))
      \<and> (\<bar>of_int (round_half_even prod_h) - prod_h\<bar> = 1 / 2 \<longrightarrow> even (round_half_even prod_h))"
proof -
  obtain sw sh where g:
    "1 \<le> cw r" "cw r < 2147483648" "1 \<le> ch r" "ch r < 2147483648"
    "region_w r = max 1 (fst (bottom_right a) - fst (top_left a) - 2 * padding a)"
    "region_h r = max 1 (snd (bottom_right a) - snd (top_left a) - 2 * padding a)"
    "py_truediv (region_w r) (cw r) = Inr sw" "py_truediv (region_h r) (ch r) = Inr sh"
    "scale r = (if allow_upscale a then min sw sh else min 1 (min sw sh))"
    "new_dim (cw r) (scale r) = Inr (new_w r)" "new_dim (ch r) (scale r) = Inr (new_h r)"
    "in_cint (new_w r)" "in_cint (new_h r)"
    "\<forall>c. content_image a = ObjImage c \<and> c < fresh w0 \<longrightarrow> (cw r, ch r) = image_size w0 c"
    using assms(1) by (rule success_geometry)
  have rw: "1 \<le> region_w r" and rh: "1 \<le> region_h r" unfolding g(5,6) by simp_all
  note bw = py_truediv_bounds[OF g(1,2) rw g(7)]
  note bh = py_truediv_bounds[OF g(3,4) rh g(8)]
  have s_lo: "1 / 2 ^ 32 \<le> scale r" unfolding g(9) using bw(3) bh(3) by (simp add: min_def)
  have cl: "\<not> allow_upscale a \<longrightarrow> scale r \<le> 1" unfolding g(9) by simp
  obtain pw where pw: "py_int_times_float (cw r) (scale r) = Inr (Finite pw)"
    "fl_round (of_int (cw r) * scale r) = Some pw" "new_w r = max 1 (round_half_even pw)"
    using g(1,2,10) by (rule new_dim_product)
  obtain ph where ph: "py_int_times_float (ch r) (scale r) = Inr (Finite ph)"
    "fl_round (of_int (ch r) * scale r) = Some ph" "new_h r = max 1 (round_half_even ph)"
    using g(3,4,11) by (rule new_dim_product)
  show ?thesis
    using g(5,6,7,8,9) cl pw(1,3) ph(1,3)
      ratio_error[OF g(1,2) rw g(7)] ratio_error[OF g(3,4) rh g(8)]
      product_error[OF g(1) s_lo pw(2)] product_error[OF g(3) s_lo ph(2)]
      rhe_near[of pw] rhe_near[of ph] rhe_tie_even[of pw] rhe_tie_even[of ph]
    by blast
qed

theorem scale_and_size_witness:
  "fst (paste_image_auto ex_env (ex_args\<lparr>bottom_right := (2, 4)\<rparr>)
          (ex_world\<lparr>heap := (heap ex_world)(1 := ex_tall)\<rparr>))
     = Inr (ex_out\<lparr>png := [10, 10, 7, 7], region_h := 4, ch := 4, new_h := 3\<rparr>)
   \<and> py_truediv 2 3 = Inr s23 \<and> py_truediv 4 4 = Inr 1 \<and> min 1 (min s23 1) = s23
   \<and> py_int_times_float 4 s23 = Inr (Finite (4 * s23))
   \<and> \<lfloor>4 * s23\<rfloor> = 2 \<and> round_half_even (4 * s23) = 3
   \<and> (\<exists>prod_h. py_int_times_float 4 s23 = Inr (Finite prod_h)
          \<and> (3::int) = max 1 (round_half_even prod_h)
          \<and> \<bar>of_int (round_half_even prod_h) - prod_h\<bar> \<le> 1 / 2)"
proof -
  note rt = run_pair[of "paste_image_auto ex_env (ex_args\<lparr>bottom_right := (2, 4)\<rparr>)"
      "ex_world\<lparr>heap := (heap ex_world)(1 := ex_tall)\<rparr>", OF ex_run_tall]
  have o: "ch (ex_out\<lparr>png := [10, 10, 7, 7], region_h := 4, ch := 4, new_h := 3\<rparr>) = 4"
    "scale (ex_out\<lparr>png := [10, 10, 7, 7], region_h := 4, ch := 4, new_h := 3\<rparr>) = s23"
    "new_h (ex_out\<lparr>png := [10, 10, 7, 7], region_h := 4, ch := 4, new_h := 3\<rparr>) = 3"
    by (simp_all add: ex_out_def)
  from scale_and_size[OF rt]
  have 1: "\<exists>prod_h. py_int_times_float 4 s23 = Inr (Finite prod_h)
          \<and> (3::int) = max 1 (round_half_even prod_h)
          \<and> \<bar>of_int (round_half_even prod_h) - prod_h\<bar> \<le> 1 / 2"
    unfolding o by blast
  have 2: "min 1 (min s23 1) = s23" by (simp add: s23_def)
  show ?thesis using ex_run_tall div_2_3 div_4_4 times_4 floor_4 round_4 1 2 by simp
qed


text \<open>
  Claim C3 (aspect preservation). As stated the claim fails: the placed dimensions are whole
  pixels, so a 3 by 2 content fitted into a 2 by 2 region is placed as 2 by 1, with ratios
  2/3 and 1/2, neither equal to the scale. What holds is that both dimensions come from
  the one scale, each ratio within half a pixel (and the float rounding) of it, unless the
  dimension was raised to the 1-pixel floor.
\<close>

theorem aspect_within_rounding:
  assumes "paste_image_auto E a w0 = (Inr r, w')"
  shows "(new_w r = 1 \<or>
          \<bar>of_int (new_w r) / of_int (cw r) - scale r\<bar> \<le> 1 / 2 / of_int (cw r) + scale r / 2 ^ 53)
       \<and> (new_h r = 1 \<or>
          \<bar>of_int (new_h r) / of_int (ch r) - scale r\<bar> \<le> 1 / 2 / of_int (ch r) + scale r / 2 ^ 53)"
proof -
  obtain sw sh where g:
    "1 \<le> cw r" "cw r < 2147483648" "1 \<le> ch r" "ch r < 2147483648"
    "region_w r = max 1 (fst (bottom_right a) - fst (top_left a) - 2 * padding a)"
    "region_h r = max 1 (snd (bottom_right a) - snd (top_left a) - 2 * padding a)"
    "py_truediv (region_w r) (cw r) = Inr sw" "py_truediv (region_h r) (ch r) = Inr sh"
    "scale r = (if allow_upscale a then min sw sh else min 1 (min sw sh))"
    "new_dim (cw r) (scale r) = Inr (new_w r)" "new_dim (ch r) (scale r) = Inr (new_h r)"
    "in_cint (new_w r)" "in_cint (new_h r)"
    "\<forall>c. content_image a = ObjImage c \<and> c < fresh w0 \<longrightarrow> (cw r, ch r) = image_size w0 c"
    using assms(1) by (rule success_geometry)
  have rw: "1 \<le> region_w r" and rh: "1 \<le> region_h r" unfolding g(5,6) by simp_all
  note bw = py_truediv_bounds[OF g(1,2) rw g(7)]
  note bh = py_truediv_bounds[OF g(3,4) rh g(8)]
  have s_lo: "1 / 2 ^ 32 \<le> scale r" unfolding g(9) using bw(3) bh(3) by (simp add: min_def)
  show ?thesis using new_dim_near[OF g(1,2) s_lo g(10)] new_dim_near[OF g(3,4) s_lo g(11)] by simp
qed

theorem aspect_within_rounding_witness:
  "fst (paste_image_auto ex_env ex_args ex_world) = Inr ex_out
   \<and> new_w ex_out = 2 \<and> new_h ex_out = 1 \<and> cw ex_out = 3 \<and> ch ex_out = 2
   \<and> \<bar>(2::rat) / 3 - scale ex_out\<bar> \<le> 1 / 2 / 3 + scale ex_out / 2 ^ 53"
proof -
  note r1 = run_pair[of "paste_image_auto ex_env ex_args" ex_world, OF ex_run]
  have o: "new_w ex_out = 2" "new_h ex_out = 1" "cw ex_out = 3" "ch ex_out = 2"
    by (simp_all add: ex_out_def)
  from aspect_within_rounding[OF r1] show ?thesis using ex_run unfolding o by simp
qed

theorem aspect_counterexample:
  "fst (paste_image_auto ex_env ex_args ex_world) = Inr ex_out
   \<and> (of_int (new_w ex_out) :: rat) / of_int (cw ex_out) = 2 / 3
   \<and> (of_int (new_h ex_out) :: rat) / of_int (ch ex_out) = 1 / 2
   \<and> (of_int (new_w ex_out) :: rat) / of_int (cw ex_out) \<noteq> of_int (new_h ex_out) / of_int (ch ex_out)
   \<and> (of_int (new_w ex_out) :: rat) / of_int (cw ex_out) \<noteq> scale ex_out
   \<and> (of_int (new_h ex_out) :: rat) / of_int (ch ex_out) \<noteq> scale ex_out"
  using ex_run by (simp add: ex_out_def s23_def)


text \<open>
  Claim C4 (placement arithmetic). For every successful call the paste origin is
  \<open>x1 + padding\<close> for left, \<open>x1 + padding + floor ((inner_width - placed_width) / 2)\<close> for
  centre and \<open>x2 - padding - placed_width\<close> for right alignment, and symmetrically in the
  vertical direction; the inner size is the region less twice the padding, floored at 1;
  the origin reaches the paste call unchanged (no clamping), and the pasted image has the
  placed size. So with padding 0, left and top alignment put the origin on \<open>top_left\<close>, and
  right and bottom alignment put the placed bottom-right corner on \<open>bottom_right\<close>.
\<close>

theorem placement_arithmetic:
  assumes "paste_image_auto E a w0 = (Inr r, w')"
  shows "px r = (case align a of
                   ALeft \<Rightarrow> fst (top_left a) + padding a
                 | ACenter \<Rightarrow> fst (top_left a) + padding a
                                + \<lfloor>(of_int (region_w r - new_w r) :: rat) / 2\<rfloor>
                 | ARight \<Rightarrow> fst (bottom_right a) - padding a - new_w r)
       \<and> py r = (case valign a of
                   VTop \<Rightarrow> snd (top_left a) + padding a
                 | VMiddle \<Rightarrow> snd (top_left a) + padding a
                                + \<lfloor>(of_int (region_h r - new_h r) :: rat) / 2\<rfloor>
                 | VBottom \<Rightarrow> snd (bottom_right a) - padding a - new_h r)
       \<and> region_w r = max 1 (fst (bottom_right a) - fst (top_left a) - 2 * padding a)
       \<and> region_h r = max 1 (snd (bottom_right a) - snd (top_left a) - 2 * padding a)
       \<and> (\<exists>m. CallPaste (img r) (resized r) (px r, py r) m \<in> set (calls w'))
       \<and> image_size w' (resized r) = (new_w r, new_h r)
       \<and> (padding a = 0 \<and> align a = ALeft \<and> valign a = VTop \<longrightarrow> (px r, py r) = top_left a)
       \<and> (padding a = 0 \<and> align a = ARight \<and> valign a = VBottom \<longrightarrow>
            (px r + new_w r, py r + new_h r) = bottom_right a)"
proof -
  obtain content base ovr region s new rsz w2 w3 w7 w8 w9 where st:
    "paste_region (top_left a) (bottom_right a) (padding a) = Inr region"
    "r = \<lparr>png = png r, img = base, resized = rsz,
             region_w = fst region, region_h = snd region,
             cw = fst (image_size w3 content), ch = snd (image_size w3 content), scale = s,
             new_w = fst new, new_h = snd new,
             px = fst (paste_origin a region new), py = snd (paste_origin a region new)\<rparr>"
    using assms by (rule paste_image_auto_success)
  have r: "region_w r = fst region" "region_h r = snd region" "new_w r = fst new" "new_h r = snd new"
    "px r = fst (paste_origin a region new)" "py r = snd (paste_origin a region new)"
    by (subst st(2), simp)+
  have fl: "\<lfloor>(of_int k :: rat) / 2\<rfloor> = k div 2" for k :: int
    using floor_divide_of_int_eq[of k 2, where ?'a = rat] by simp
  have rg: "fst region = max 1 (fst (bottom_right a) - fst (top_left a) - 2 * padding a)"
    "snd region = max 1 (snd (bottom_right a) - snd (top_left a) - 2 * padding a)"
    using st(1) by (auto simp: paste_region_cases split: if_splits)
  have x: "px r = (case align a of
                   ALeft \<Rightarrow> fst (top_left a) + padding a
                 | ACenter \<Rightarrow> fst (top_left a) + padding a
                                + \<lfloor>(of_int (region_w r - new_w r) :: rat) / 2\<rfloor>
                 | ARight \<Rightarrow> fst (bottom_right a) - padding a - new_w r)"
    unfolding r fl by (simp add: paste_origin_def paste_x_def)
  have y: "py r = (case valign a of
                   VTop \<Rightarrow> snd (top_left a) + padding a
                 | VMiddle \<Rightarrow> snd (top_left a) + padding a
                                + \<lfloor>(of_int (region_h r - new_h r) :: rat) / 2\<rfloor>
                 | VBottom \<Rightarrow> snd (bottom_right a) - padding a - new_h r)"
    unfolding r fl by (simp add: paste_origin_def paste_y_def)
  have tl: "(px r, py r) = top_left a" if "padding a = 0" "align a = ALeft" "valign a = VTop"
    using that x y by (simp add: prod_eq_iff)
  have br: "(px r + new_w r, py r + new_h r) = bottom_right a"
    if "padding a = 0" "align a = ARight" "valign a = VBottom"
    using that x y by (simp add: prod_eq_iff)
  show ?thesis using x y rg tl br success_store[OF assms] unfolding r(1,2) by blast
qed

theorem placement_arithmetic_witness:
  "(\<exists>r w'. paste_image_auto ex_env ex_args ex_world = (Inr r, w')
       \<and> padding ex_args = 0 \<and> align ex_args = ALeft \<and> valign ex_args = VTop
       \<and> (px r, py r) = top_left ex_args \<and> region_w r = 2 \<and> region_h r = 2
       \<and> image_size w' (resized r) = (2, 1))
 \<and> (\<exists>r w'. paste_image_auto ex_env (ex_args\<lparr>align := ARight, valign := VBottom\<rparr>) ex_world = (Inr r, w')
       \<and> (px r + new_w r, py r + new_h r) = (2, 2))
 \<and> (\<exists>r w'. paste_image_auto ex_env (ex_args\<lparr>align := ACenter, valign := VMiddle\<rparr>) ex_world = (Inr r, w')
       \<and> region_h r - new_h r = 1 \<and> py r = 0)"
proof -
  note r1 = run_pair[of "paste_image_auto ex_env ex_args" ex_world, OF ex_run]
  note r2 = run_pair[of "paste_image_auto ex_env (ex_args\<lparr>align := ARight, valign := VBottom\<rparr>)" ex_world, OF ex_run_br]
  note r3 = run_pair[of "paste_image_auto ex_env (ex_args\<lparr>align := ACenter, valign := VMiddle\<rparr>)" ex_world, OF ex_run_mid]
  have a: "padding ex_args = 0" "align ex_args = ALeft" "valign ex_args = VTop"
    "top_left ex_args = (0, 0)" "bottom_right ex_args = (2, 2)"
    by (simp_all add: ex_args_def)
  from placement_arithmetic[OF r1] have 1: "\<exists>r w'. paste_image_auto ex_env ex_args ex_world = (Inr r, w')
       \<and> padding ex_args = 0 \<and> align ex_args = ALeft \<and> valign ex_args = VTop
       \<and> (px r, py r) = top_left ex_args \<and> region_w r = 2 \<and> region_h r = 2
       \<and> image_size w' (resized r) = (2, 1)"
    using r1 a by (intro exI[of _ ex_out] exI[of _ "snd (paste_image_auto ex_env ex_args ex_world)"])
      (simp add: ex_out_def)
  from placement_arithmetic[OF r2] have 2: "\<exists>r w'. paste_image_auto ex_env (ex_args\<lparr>align := ARight, valign := VBottom\<rparr>) ex_world = (Inr r, w')
       \<and> (px r + new_w r, py r + new_h r) = (2, 2)"
    using r2 a by (intro exI[of _ "ex_out\<lparr>png := [10, 10, 255, 255], py := 1\<rparr>"]
        exI[of _ "snd (paste_image_auto ex_env (ex_args\<lparr>align := ARight, valign := VBottom\<rparr>) ex_world)"])
      (simp add: ex_out_def)
  from placement_arithmetic[OF r3] have 3: "\<exists>r w'. paste_image_auto ex_env (ex_args\<lparr>align := ACenter, valign := VMiddle\<rparr>) ex_world = (Inr r, w')
       \<and> region_h r - new_h r = 1 \<and> py r = 0"
    using r3 a by (intro exI[of _ ex_out]
        exI[of _ "snd (paste_image_auto ex_env (ex_args\<lparr>align := ACenter, valign := VMiddle\<rparr>) ex_world)"])
      (simp add: ex_out_def)
  show ?thesis using 1 2 3 by blast
qed





text \<open>
  Claim C6 (upscale clamp identity). On a successful call with \<open>allow_upscale\<close> false whose
  content is no wider and no higher than the inner region, the scale is exactly 1 and the
  placed size is the content size.
\<close>

theorem upscale_clamp_identity:
  assumes "paste_image_auto E a w0 = (Inr r, w')"
    and "\<not> allow_upscale a" and "cw r \<le> region_w r" and "ch r \<le> region_h r"
  shows "scale r = 1 \<and> new_w r = cw r \<and> new_h r = ch r
       \<and> (\<forall>c. content_image a = ObjImage c \<and> c < fresh w0 \<longrightarrow> (cw r, ch r) = image_size w0 c)"
proof -
  obtain sw sh where g:
    "1 \<le> cw r" "cw r < 2147483648" "1 \<le> ch r" "ch r < 2147483648"
    "region_w r = max 1 (fst (bottom_right a) - fst (top_left a) - 2 * padding a)"
    "region_h r = max 1 (snd (bottom_right a) - snd (top_left a) - 2 * padding a)"
    "py_truediv (region_w r) (cw r) = Inr sw" "py_truediv (region_h r) (ch r) = Inr sh"
    "scale r = (if allow_upscale a then min sw sh else min 1 (min sw sh))"
    "new_dim (cw r) (scale r) = Inr (new_w r)" "new_dim (ch r) (scale r) = Inr (new_h r)"
    "in_cint (new_w r)" "in_cint (new_h r)"
    "\<forall>c. content_image a = ObjImage c \<and> c < fresh w0 \<longrightarrow> (cw r, ch r) = image_size w0 c"
    using assms(1) by (rule success_geometry)
  have "1 \<le> sw" using g(1) assms(3) g(7) by (rule py_truediv_ge_one)
  moreover have "1 \<le> sh" using g(3) assms(4) g(8) by (rule py_truediv_ge_one)
  ultimately have s: "scale r = 1" using g(9) assms(2) by simp
  have "new_w r = cw r" using g(10) new_dim_one[OF g(1,2)] unfolding s by simp
  moreover have "new_h r = ch r" using g(11) new_dim_one[OF g(3,4)] unfolding s by simp
  ultimately show ?thesis using s g(14) by simp
qed

theorem upscale_clamp_identity_witness:
  "\<not> allow_upscale (ex_args\<lparr>bottom_right := (5, 5)\<rparr>)
   \<and> content_image (ex_args\<lparr>bottom_right := (5, 5)\<rparr>) = ObjImage 1 \<and> 1 < fresh ex_world
   \<and> image_size ex_world 1 = (3, 2)
   \<and> (\<exists>r w'. paste_image_auto ex_env (ex_args\<lparr>bottom_right := (5, 5)\<rparr>) ex_world = (Inr r, w')
         \<and> region_w r = 5 \<and> region_h r = 5 \<and> cw r = 3 \<and> ch r = 2
         \<and> scale r = 1 \<and> new_w r = 3 \<and> new_h r = 2)"
proof -
  note r5 = run_pair[of "paste_image_auto ex_env (ex_args\<lparr>bottom_right := (5, 5)\<rparr>)" ex_world, OF ex_run5]
  have a: "\<not> allow_upscale (ex_args\<lparr>bottom_right := (5, 5)\<rparr>)"
    "content_image (ex_args\<lparr>bottom_right := (5, 5)\<rparr>) = ObjImage 1" "1 < fresh ex_world"
    "image_size ex_world 1 = (3, 2)"
    by (simp_all add: ex_defs image_size_def img_w_def img_h_def)
  have o: "cw (ex_out\<lparr>region_w := 5, region_h := 5, scale := 1, new_w := 3, new_h := 2\<rparr>)
            \<le> region_w (ex_out\<lparr>region_w := 5, region_h := 5, scale := 1, new_w := 3, new_h := 2\<rparr>)"
    "ch (ex_out\<lparr>region_w := 5, region_h := 5, scale := 1, new_w := 3, new_h := 2\<rparr>)
            \<le> region_h (ex_out\<lparr>region_w := 5, region_h := 5, scale := 1, new_w := 3, new_h := 2\<rparr>)"
    by (simp_all add: ex_out_def)
  from upscale_clamp_identity[OF r5 a(1) o] show ?thesis
    using a r5 by (intro conjI exI[of _ "ex_out\<lparr>region_w := 5, region_h := 5, scale := 1, new_w := 3, new_h := 2\<rparr>"]
        exI[of _ "snd (paste_image_auto ex_env (ex_args\<lparr>bottom_right := (5, 5)\<rparr>) ex_world)"])
      (simp_all add: ex_out_def)
qed


text \<open>
  Claim C7 (validation order and error surface). A \<open>content_image\<close> that is not an image
  fails at once with the type-mismatch error and leaves the world untouched. Otherwise the
  base image and the overlay are prepared (which can only fail in the decoder); then a
  region with \<open>x2 \<le> x1\<close> or \<open>y2 \<le> y1\<close> fails with the invalid-geometry error, and
  otherwise a content width or height \<open>\<le> 0\<close> fails with the invalid-content-size error,
  both in a world that has seen preparation calls only. In every other case an error, if
  any, comes from the float arithmetic, the raster library or the encoder.
\<close>

theorem validation_order:
  "(case content_image a of
      ObjImage content \<Rightarrow>
        (case prepare_base E (image_source a) w0 of
           (Inl e, w2) \<Rightarrow> paste_image_auto E a w0 = (Inl DecodeFailure, w2)
         | (Inr base, w2) \<Rightarrow>
             (case prepare_overlay E (image_overlay a) w2 of
                (Inl e, w3) \<Rightarrow> paste_image_auto E a w0 = (Inl DecodeFailure, w3)
              | (Inr ovr, w3) \<Rightarrow>
                  only_preparation w0 w3 \<and>
                  (if \<not> (fst (top_left a) < fst (bottom_right a) \<and>
                          snd (top_left a) < snd (bottom_right a))
                   then paste_image_auto E a w0 = (Inl InvalidGeometry, w3)
                   else if img_w (heap w3 content) \<le> 0 \<or> img_h (heap w3 content) \<le> 0
                   then paste_image_auto E a w0 = (Inl InvalidContentSize, w3)
                   else (\<forall>e. fst (paste_image_auto E a w0) = Inl e \<longrightarrow>
                           e = OverflowError \<or> e = LibraryValueError \<or> e = EncodeFailure))))
    | _ \<Rightarrow> paste_image_auto E a w0 = (Inl TypeMismatch, w0))"
proof (cases rule: paste_image_auto_cases[of a E w0])
  case type_error
  then show ?thesis by (cases "content_image a") simp_all
next
  case (base_error content e w2)
  then show ?thesis using prepare_base_cases[of E "image_source a" w0 "Inl e" w2] by simp
next
  case (overlay_error content base w2 e w3)
  then show ?thesis using prepare_overlay_cases[of E "image_overlay a" w2 "Inl e" w3] by simp
next
  case (geometry_error content base w2 ovr w3 e)
  have "only_preparation w0 w3"
    using prepare_base_cases[OF geometry_error(2)] prepare_overlay_cases[OF geometry_error(3)]
    by (blast intro: only_preparation_trans)
  then show ?thesis using geometry_error by (simp add: paste_region_cases split: if_splits)
next
  case (scale_error content base w2 ovr w3 region e)
  have "only_preparation w0 w3"
    using prepare_base_cases[OF scale_error(2)] prepare_overlay_cases[OF scale_error(3)]
    by (blast intro: only_preparation_trans)
  then show ?thesis using scale_error fit_scale_error[OF scale_error(5)]
    by (auto simp: paste_region_cases image_size_def split: if_splits)
next
  case (size_error content base w2 ovr w3 region s e)
  have "only_preparation w0 w3"
    using prepare_base_cases[OF size_error(2)] prepare_overlay_cases[OF size_error(3)]
    by (blast intro: only_preparation_trans)
  moreover have "\<not> (img_w (heap w3 content) \<le> 0 \<or> img_h (heap w3 content) \<le> 0)"
    using size_error(5) fit_scale_invalid[of "image_size w3 content" region "allow_upscale a"]
    by (auto simp: image_size_def)
  ultimately show ?thesis using size_error new_size_error[OF size_error(6)]
    by (auto simp: paste_region_cases split: if_splits)
next
  case (resize_error content base w2 ovr w3 region s new e w7)
  have "only_preparation w0 w3"
    using prepare_base_cases[OF resize_error(2)] prepare_overlay_cases[OF resize_error(3)]
    by (blast intro: only_preparation_trans)
  moreover have "\<not> (img_w (heap w3 content) \<le> 0 \<or> img_h (heap w3 content) \<le> 0)"
    using resize_error(5) fit_scale_invalid[of "image_size w3 content" region "allow_upscale a"]
    by (auto simp: image_size_def)
  ultimately show ?thesis using resize_error image_resize_error[OF resize_error(7)]
    by (auto simp: paste_region_cases split: if_splits)
next
  case (paste_error content base w2 ovr w3 region s new rsz w7 e w8)
  have "only_preparation w0 w3"
    using prepare_base_cases[OF paste_error(2)] prepare_overlay_cases[OF paste_error(3)]
    by (blast intro: only_preparation_trans)
  moreover have "\<not> (img_w (heap w3 content) \<le> 0 \<or> img_h (heap w3 content) \<le> 0)"
    using paste_error(5) fit_scale_invalid[of "image_size w3 content" region "allow_upscale a"]
    by (auto simp: image_size_def)
  ultimately show ?thesis using paste_error paste_content_error[OF paste_error(8)]
    by (auto simp: paste_region_cases split: if_splits)
next
  case (draw_error content base w2 ovr w3 region s new rsz w7 w8 e w9)
  have "only_preparation w0 w3"
    using prepare_base_cases[OF draw_error(2)] prepare_overlay_cases[OF draw_error(3)]
    by (blast intro: only_preparation_trans)
  moreover have "\<not> (img_w (heap w3 content) \<le> 0 \<or> img_h (heap w3 content) \<le> 0)"
    using draw_error(5) fit_scale_invalid[of "image_size w3 content" region "allow_upscale a"]
    by (auto simp: image_size_def)
  ultimately show ?thesis using draw_error draw_overlay_error[OF draw_error(9)]
    by (auto simp: paste_region_cases split: if_splits)
next
  case (save_error content base w2 ovr w3 region s new rsz w7 w8 w9 e w10)
  have "only_preparation w0 w3"
    using prepare_base_cases[OF save_error(2)] prepare_overlay_cases[OF save_error(3)]
    by (blast intro: only_preparation_trans)
  moreover have "\<not> (img_w (heap w3 content) \<le> 0 \<or> img_h (heap w3 content) \<le> 0)"
    using save_error(5) fit_scale_invalid[of "image_size w3 content" region "allow_upscale a"]
    by (auto simp: image_size_def)
  ultimately show ?thesis using save_error image_save_png_error[OF save_error(10)]
    by (auto simp: paste_region_cases split: if_splits)
next
  case (success content base w2 ovr w3 region s new rsz w7 w8 w9 bytes w10)
  have "only_preparation w0 w3"
    using prepare_base_cases[OF success(2)] prepare_overlay_cases[OF success(3)]
    by (blast intro: only_preparation_trans)
  moreover have "\<not> (img_w (heap w3 content) \<le> 0 \<or> img_h (heap w3 content) \<le> 0)"
    using success(5) fit_scale_invalid[of "image_size w3 content" region "allow_upscale a"]
    by (auto simp: image_size_def)
  ultimately show ?thesis using success
    by (auto simp: paste_region_cases split: if_splits)
qed

theorem validation_order_witness:
  "paste_image_auto ex_env (ex_args\<lparr>content_image := ObjStr ''content.png''\<rparr>) ex_world
     = (Inl TypeMismatch, ex_world)
 \<and> fst (paste_image_auto ex_env (ex_args\<lparr>bottom_right := (0, 5)\<rparr>) ex_world) = Inl InvalidGeometry
 \<and> calls (snd (paste_image_auto ex_env (ex_args\<lparr>bottom_right := (0, 5)\<rparr>) ex_world)) = [CallCopy 0]
 \<and> fst (paste_image_auto ex_env (ex_args\<lparr>content_image := ObjImage 2\<rparr>) ex_world) = Inl InvalidContentSize
 \<and> calls (snd (paste_image_auto ex_env (ex_args\<lparr>content_image := ObjImage 2\<rparr>) ex_world)) = [CallCopy 0]"
  using validation_order[where a = "ex_args\<lparr>content_image := ObjStr ''content.png''\<rparr>"
      and E = ex_env and ?w0.0 = ex_world]
    validation_order[where a = "ex_args\<lparr>bottom_right := (0, 5)\<rparr>" and E = ex_env and ?w0.0 = ex_world]
    validation_order[where a = "ex_args\<lparr>content_image := ObjImage 2\<rparr>" and E = ex_env and ?w0.0 = ex_world]
  by (simp add: ex_defs prepare_base_def prepare_overlay_def image_copy_eq img_w_def img_h_def)


text \<open>
  Claim C8 (non-mutation of inputs). Whatever a call returns, every object that existed
  before it is unchanged afterwards, in particular the caller's canvas (when the base is
  given as an image) and the content image; the canvas that is drawn on and the resized
  content are new, distinct objects.
\<close>

theorem non_mutation:
  assumes "paste_image_auto E a w0 = (res, w')"
  shows "(\<forall>c. image_source a = SrcImage c \<and> c < fresh w0 \<longrightarrow> heap w' c = heap w0 c)
       \<and> (\<forall>k. content_image a = ObjImage k \<and> k < fresh w0 \<longrightarrow> heap w' k = heap w0 k)
       \<and> (\<forall>x. x < fresh w0 \<longrightarrow> heap w' x = heap w0 x)
       \<and> (\<forall>r. res = Inr r \<longrightarrow>
             fresh w0 \<le> img r \<and> fresh w0 \<le> resized r \<and> img r \<noteq> resized r \<and> resized r < fresh w')"
proof -
  have fr: "heap w' x = heap w0 x" if x: "x < fresh w0" for x
  proof (cases rule: paste_image_auto_cases[of a E w0])
    case type_error
    then show ?thesis using assms by simp
  next
    case (base_error content e w2)
    then show ?thesis using assms prepare_base_cases[OF base_error(2)] by auto
  next
    case (overlay_error content base w2 e w3)
    then show ?thesis using assms x prepare_base_cases[OF overlay_error(2)]
        prepare_overlay_cases[OF overlay_error(3)] by auto
  next
    case (geometry_error content base w2 ovr w3 e)
    then show ?thesis using assms x prepare_base_cases[OF geometry_error(2)]
        prepare_overlay_cases[OF geometry_error(3)] by auto
  next
    case (scale_error content base w2 ovr w3 region e)
    then show ?thesis using assms x prepare_base_cases[OF scale_error(2)]
        prepare_overlay_cases[OF scale_error(3)] by auto
  next
    case (size_error content base w2 ovr w3 region s e)
    then show ?thesis using assms x prepare_base_cases[OF size_error(2)]
        prepare_overlay_cases[OF size_error(3)] by auto
  next
    case (resize_error content base w2 ovr w3 region s new e w7)
    then show ?thesis using assms x prepare_base_cases[OF resize_error(2)]
        prepare_overlay_cases[OF resize_error(3)] image_resize_cases[OF resize_error(7)] by auto
  next
    case (paste_error content base w2 ovr w3 region s new rsz w7 e w8)
    have "base = fresh w0" "fresh w0 < fresh w2" "heap w2 x = heap w0 x"
      using x prepare_base_cases[OF paste_error(2)] by auto
    moreover have "fresh w2 \<le> fresh w3" "heap w3 x = heap w2 x"
      using x calculation prepare_overlay_cases[OF paste_error(3)] by auto
    moreover have "heap w7 x = heap w3 x"
      using x calculation image_resize_cases[OF paste_error(7)] by auto
    moreover have "heap w8 x = heap w7 x"
      using x calculation paste_content_frame[OF paste_error(8)] by auto
    ultimately show ?thesis using assms paste_error(9) by simp
  next
    case (draw_error content base w2 ovr w3 region s new rsz w7 w8 e w9)
    have "base = fresh w0" "fresh w0 < fresh w2" "heap w2 x = heap w0 x"
      using x prepare_base_cases[OF draw_error(2)] by auto
    moreover have "fresh w2 \<le> fresh w3" "heap w3 x = heap w2 x"
      using x calculation prepare_overlay_cases[OF draw_error(3)] by auto
    moreover have "heap w7 x = heap w3 x"
      using x calculation image_resize_cases[OF draw_error(7)] by auto
    moreover have "heap w8 x = heap w7 x"
      using x calculation paste_content_frame[OF draw_error(8)] by auto
    moreover have "heap w9 x = heap w8 x"
      using x calculation draw_overlay_frame[OF draw_error(9)] by auto
    ultimately show ?thesis using assms draw_error(10) by simp
  next
    case (save_error content base w2 ovr w3 region s new rsz w7 w8 w9 e w10)
    have "base = fresh w0" "fresh w0 < fresh w2" "heap w2 x = heap w0 x"
      using x prepare_base_cases[OF save_error(2)] by auto
    moreover have "fresh w2 \<le> fresh w3" "heap w3 x = heap w2 x"
      using x calculation prepare_overlay_cases[OF save_error(3)] by auto
    moreover have "heap w7 x = heap w3 x"
      using x calculation image_resize_cases[OF save_error(7)] by auto
    moreover have "heap w8 x = heap w7 x"
      using x calculation paste_content_frame[OF save_error(8)] by auto
    moreover have "heap w9 x = heap w8 x"
      using x calculation draw_overlay_frame[OF save_error(9)] by auto
    moreover have "heap w10 x = heap w9 x"
      using image_save_png_frame[OF save_error(10)] by auto
    ultimately show ?thesis using assms save_error(11) by simp
  next
    case (success content base w2 ovr w3 region s new rsz w7 w8 w9 bytes w10)
    then show ?thesis using assms x success_store[OF success(11)] by simp
  qed
  have new: "fresh w0 \<le> img r \<and> fresh w0 \<le> resized r \<and> img r \<noteq> resized r \<and> resized r < fresh w'"
    if "res = Inr r" for r
    using success_store[OF assms[unfolded that]] by auto
  show ?thesis using fr new by blast
qed

theorem non_mutation_witness:
  "image_source ex_args = SrcImage 0 \<and> content_image ex_args = ObjImage 1 \<and> fresh ex_world = 3
   \<and> heap (snd (paste_image_auto ex_env ex_args ex_world)) 0 = ex_canvas
   \<and> heap (snd (paste_image_auto ex_env ex_args ex_world)) 1 = ex_content
   \<and> fst (paste_image_auto ex_env ex_args ex_world) = Inr ex_out
   \<and> img ex_out = 3 \<and> resized ex_out = 4"
proof -
  note r1 = run_pair[of "paste_image_auto ex_env ex_args" ex_world, OF ex_run]
  have a: "image_source ex_args = SrcImage 0" "content_image ex_args = ObjImage 1"
    by (simp_all add: ex_args_def)
  have w: "fresh ex_world = 3" "heap ex_world 0 = ex_canvas" "heap ex_world 1 = ex_content"
    by (simp_all add: ex_world_def)
  from non_mutation[OF r1] show ?thesis using a w ex_run by (simp add: ex_out_def)
qed


text \<open>
  Claim C9 (missing overlay, soft failure). When \<open>image_overlay\<close> is a path that is not an
  existing file, the call returns exactly what the same call without an overlay returns
  (the same error, or the same outcome with the same PNG bytes), leaves the same store, and
  makes the same library calls apart from the test of the path and the warning: so no
  overlay is pasted. When it succeeds, the warning is printed just before the image is
  saved.
\<close>

theorem missing_overlay_soft_failure:
  assumes "\<not> isfile E p"
  shows "fst (paste_image_auto E (a\<lparr>image_overlay := OvPath p\<rparr>) w0)
           = fst (paste_image_auto E (a\<lparr>image_overlay := OvNone\<rparr>) w0)
       \<and> heap (snd (paste_image_auto E (a\<lparr>image_overlay := OvPath p\<rparr>) w0))
           = heap (snd (paste_image_auto E (a\<lparr>image_overlay := OvNone\<rparr>) w0))
       \<and> filter (\<lambda>c. \<not> diagnostic_call p c)
            (calls (snd (paste_image_auto E (a\<lparr>image_overlay := OvPath p\<rparr>) w0)))
           = filter (\<lambda>c. \<not> diagnostic_call p c)
               (calls (snd (paste_image_auto E (a\<lparr>image_overlay := OvNone\<rparr>) w0)))
       \<and> (\<forall>r w'. paste_image_auto E (a\<lparr>image_overlay := OvPath p\<rparr>) w0 = (Inr r, w') \<longrightarrow>
             (\<exists>cs. calls w' = cs @ [CallPrint warning_text, CallSave (img r)]))"
proof -
  have warn: "\<exists>cs. calls w' = cs @ [CallPrint warning_text, CallSave (img r)]"
    if run: "paste_image_auto E (a\<lparr>image_overlay := OvPath p\<rparr>) w0 = (Inr r, w')" for r w'
  proof -
    obtain content base ovr region s new rsz w2 w3 w7 w8 w9 where st:
      "prepare_overlay E (image_overlay (a\<lparr>image_overlay := OvPath p\<rparr>)) w2 = (Inr ovr, w3)"
      "draw_overlay (image_overlay (a\<lparr>image_overlay := OvPath p\<rparr>)) ovr base w8 = (Inr (), w9)"
      "image_save_png E base w9 = (Inr (png r), w')"
      "r = \<lparr>png = png r, img = base, resized = rsz,
             region_w = fst region, region_h = snd region,
             cw = fst (image_size w3 content), ch = snd (image_size w3 content), scale = s,
             new_w = fst new, new_h = snd new,
             px = fst (paste_origin (a\<lparr>image_overlay := OvPath p\<rparr>) region new),
             py = snd (paste_origin (a\<lparr>image_overlay := OvPath p\<rparr>) region new)\<rparr>"
      using run by (rule paste_image_auto_success)
    have b: "img r = base" by (subst st(4)) simp
    have "ovr = None" using st(1) assms by (simp add: prepare_overlay_missing)
    then have "calls w9 = calls w8 @ [CallPrint warning_text]"
      using st(2) by (auto simp: draw_overlay_def log_call_def)
    moreover have "calls w' = calls w9 @ [CallSave base]"
      using image_save_png_frame[OF st(3)] by simp
    ultimately show ?thesis unfolding b by simp
  qed
  from missing_overlay_sim[OF assms, of a w0] warn show ?thesis
    unfolding sim_def same_but_diagnostics_def by blast
qed

theorem missing_overlay_soft_failure_witness:
  "\<not> isfile ex_env ''missing.png''
   \<and> fst (paste_image_auto ex_env (ex_args\<lparr>image_overlay := OvPath ''missing.png''\<rparr>) ex_world)
       = fst (paste_image_auto ex_env ex_args ex_world)
   \<and> fst (paste_image_auto ex_env ex_args ex_world) = Inr ex_out
   \<and> calls (snd (paste_image_auto ex_env (ex_args\<lparr>image_overlay := OvPath ''missing.png''\<rparr>) ex_world))
       = [CallCopy 0, CallIsFile ''missing.png'', CallResize 1 (2, 1),
          CallPaste 3 4 (0, 0) (Some 4), CallPrint warning_text, CallSave 3]"
proof -
  have nf: "\<not> isfile ex_env ''missing.png''" by (simp add: ex_env_def)
  have a: "ex_args\<lparr>image_overlay := OvNone\<rparr> = ex_args" by (simp add: ex_args_def)
  have c: "calls (snd (paste_image_auto ex_env (ex_args\<lparr>image_overlay := OvPath ''missing.png''\<rparr>) ex_world))
       = [CallCopy 0, CallIsFile ''missing.png'', CallResize 1 (2, 1),
          CallPaste 3 4 (0, 0) (Some 4), CallPrint warning_text, CallSave 3]"
    by (simp add: eval_defs ex_defs)
  from missing_overlay_soft_failure[OF nf, of ex_args ex_world] show ?thesis
    using nf c ex_run unfolding a by simp
qed





end
